theory Spec2Isabelle
  imports Main "HOL-Library.Word"
begin

chapter \<open>The model of the program\<close>

section \<open>Bytes, errors and Python slices\<close>

text \<open>
  A Python \<open>bytes\<close> object is a list of 8-bit words. Offsets and sizes that the program
  obtains from \<open>len\<close>, \<open>index\<close> or \<open>find\<close> are natural numbers; every difference of two
  of them is computed on \<open>int\<close>, as Python does, so that a negative value stays negative.
\<close>

type_synonym byte = "8 word"

type_synonym bytes = "byte list"

text \<open>
  Every way the modelled code leaves a function early. The first group are the
  \<open>AppotechError\<close> raise sites of the sources (told apart by their message) and the
  \<open>sys.exit(1)\<close> sites of the command-line tools; the second group are the Python built-in
  exceptions that the modelled paths can raise.
\<close>

datatype error =
    Truncated nat nat      \<comment> \<open>\<open>AppotechTruncatedError(expected_bytes, actual_bytes)\<close>\<close>
  | InvalidMagic           \<comment> \<open>\<open>AppotechError("Invalid magic")\<close>\<close>
  | InvalidEncoding        \<comment> \<open>\<open>AppotechError("Could not load entry from ...")\<close>\<close>
  | Empty                  \<comment> \<open>\<open>AppotechError("No entries were read")\<close>\<close>
  | OutOfRange             \<comment> \<open>\<open>AppotechError("Cannot assign ... not in the accepted range")\<close>\<close>
  | InvalidValue           \<comment> \<open>\<open>AppotechError("... only (1, true, 0, false) are supported")\<close>\<close>
  | UnsupportedType        \<comment> \<open>\<open>AppotechError("Unknown object type ...")\<close>\<close>
  | Overflow               \<comment> \<open>"Modified blob is bigger than original!", then \<open>sys.exit(1)\<close>\<close>
  | NotFound               \<comment> \<open>"Could not find ... in file", then \<open>sys.exit(1)\<close>\<close>
  | InvalidIndex           \<comment> \<open>"Invalid index" / "Index is too big", then \<open>sys.exit(1)\<close>\<close>
  | ValueError
  | UnboundLocalError
  | UnicodeEncodeError
  | StructError
  | ZeroDivisionError

text \<open>What the tools write to the log on the modelled paths.\<close>

datatype log_msg =
    TruncatingWarning int    \<comment> \<open>"File size limit exceeded by {delta} bytes. Truncating ..."\<close>
  | PaddingWarning int       \<comment> \<open>"... Added {padding_sz} bytes of padding."\<close>
  | PaddingInfo int          \<comment> \<open>"The new SFX blob is smaller than the old one! Adding ..."\<close>
  | ChecksumWarning int int  \<comment> \<open>"Invalid checksum: expected ..., got ..."\<close>
  | TrailerWarning           \<comment> \<open>"WAV trailer not found! ..."\<close>

text \<open>\<open>xs[:k]\<close> and \<open>xs[k:]\<close>: a negative bound counts from the end, and both clamp.\<close>

definition slice_to :: "'a list \<Rightarrow> int \<Rightarrow> 'a list" where
  "slice_to xs k = (if k < 0 then take (nat (int (length xs) + k)) xs else take (nat k) xs)"

definition slice_from :: "'a list \<Rightarrow> int \<Rightarrow> 'a list" where
  "slice_from xs k = (if k < 0 then drop (nat (int (length xs) + k)) xs else drop (nat k) xs)"

text \<open>\<open>xs[i:j]\<close> for bounds that are not negative.\<close>

definition slice_of :: "'a list \<Rightarrow> nat \<Rightarrow> nat \<Rightarrow> 'a list" where
  "slice_of xs i j = take (j - i) (drop i xs)"

text \<open>\<open>b"\xFF" * n\<close>: a count that is not positive gives the empty string.\<close>

definition bytes_times :: "byte \<Rightarrow> int \<Rightarrow> bytes" where
  "bytes_times b n = replicate (nat n) b"

text \<open>\<open>src.ljust(width, fill)\<close>.\<close>

definition ljust :: "bytes \<Rightarrow> nat \<Rightarrow> byte \<Rightarrow> bytes" where
  "ljust src width fill = src @ replicate (width - length src) fill"

text \<open>
  \<open>align_bytes\<close> of \<open>common.py\<close>. \<open>math.ceil(src_sz / align_to)\<close> divides two lengths as
  floats; for lengths below \<open>2 ^ 53\<close> the quotient's ceiling is the exact one, written
  here with integer division. A zero \<open>align_to\<close> raises \<open>ZeroDivisionError\<close>.
\<close>

definition align_bytes :: "bytes \<Rightarrow> nat \<Rightarrow> byte \<Rightarrow> error + bytes" where
  "align_bytes src align_to pad =
     (if align_to = 0 then Inl ZeroDivisionError
      else let src_sz = length src;
               new_sz = ((src_sz + align_to - 1) div align_to) * align_to
           in if src_sz = new_sz then Inr src else Inr (ljust src new_sz pad))"

section \<open>The injection engine\<close>

text \<open>
  The three-way concatenation both tools end with:
  \<open>input_binary[:off_start] + blob + input_binary[off_start + len(blob):]\<close>.
\<close>

definition splice_bytes :: "bytes \<Rightarrow> nat \<Rightarrow> bytes \<Rightarrow> bytes" where
  "splice_bytes input_binary off_start blob =
     slice_to input_binary (int off_start) @ blob
       @ slice_from input_binary (int off_start + int (length blob))"

text \<open>
  \<open>AppotechBtPairing.save_output\<close>, the branch for \<open>mod_path\<close>: the bytes handed to
  \<open>write_and_check\<close> and the log, or the exit. \<open>bp_off_start\<close> is the offset of the sector
  in \<open>input_binary\<close>, \<open>bp_size\<close> its length when it was loaded.
\<close>

definition save_output_mod ::
  "bytes \<Rightarrow> nat \<Rightarrow> nat \<Rightarrow> bytes \<Rightarrow> bool \<Rightarrow> error + (bytes \<times> log_msg list)" where
  "save_output_mod input_binary bp_off_start bp_size blob force_write_mod =
     (if length blob > bp_size then
        (if force_write_mod then
           (let delta = int bp_off_start + int (length blob) - int (length input_binary)
            in if delta > 0
               then Inr (splice_bytes input_binary bp_off_start
                           (slice_to blob (int (length blob) - delta)),
                         [TruncatingWarning delta])
               else Inr (splice_bytes input_binary bp_off_start blob, []))
         else Inl Overflow)
      else if length blob < bp_size then
        (let padding_sz = int (length blob) - int bp_size;
             blob' = blob @ bytes_times 0xFF padding_sz
         in Inr (splice_bytes input_binary bp_off_start blob', [PaddingWarning padding_sz]))
      else Inr (splice_bytes input_binary bp_off_start blob, []))"

text \<open>
  \<open>AppotechSfx.repack_inject_output\<close> from the size comparison on (source lines 308 to
  338), given what \<open>extract_load_input\<close> found in the firmware: \<open>sb_off_start\<close> and
  \<open>sb_size\<close>. The two \<open>if\<close> statements are separate, and the slice that truncates is
  outside the \<open>if delta > 0\<close>, as in the source.
\<close>

definition repack_inject ::
  "bytes \<Rightarrow> nat \<Rightarrow> nat \<Rightarrow> bytes \<Rightarrow> bool \<Rightarrow> error + (bytes \<times> log_msg list)" where
  "repack_inject input_binary sb_off_start sb_size blob force_inject =
     (case (if length blob < sb_size
            then (case align_bytes blob sb_size 0xFF of
                    Inl e \<Rightarrow> Inl e
                  | Inr b \<Rightarrow> Inr (b, [PaddingInfo (int sb_size - int (length blob))]))
            else Inr (blob, [])) of
        Inl e \<Rightarrow> Inl e
      | Inr (blob1, log1) \<Rightarrow>
          (if length blob1 > sb_size then
             (if force_inject then
                (let delta = int sb_off_start + int (length blob1) - int (length input_binary);
                     log2 = (if delta > 0 then [TruncatingWarning delta] else []);
                     blob2 = slice_to blob1 (int (length blob1) - delta)
                 in Inr (splice_bytes input_binary sb_off_start blob2, log1 @ log2))
              else Inl Overflow)
           else Inr (splice_bytes input_binary sb_off_start blob1, log1)))"

section \<open>Python text and the built-ins the tools call on it\<close>

text \<open>
  A Python \<open>str\<close> is a list of code points; \<open>str_of\<close> reads an ASCII literal as one.
\<close>

type_synonym str = "nat list"

definition str_of :: "string \<Rightarrow> str" where
  "str_of s = map of_char s"

text \<open>
  \<open>str.lower()\<close>, written for the letters \<open>A\<close> to \<open>Z\<close>. The tools compare the lowered
  text with \<open>1\<close>, \<open>true\<close>, \<open>0\<close>, \<open>false\<close> or read it as hexadecimal digits, and no
  code point outside ASCII lowers to a character of those, so the other case mappings
  of Unicode are left out.
\<close>

definition lower_cp :: "nat \<Rightarrow> nat" where
  "lower_cp c = (if 65 \<le> c \<and> c \<le> 90 then c + 32 else c)"

definition lower :: "str \<Rightarrow> str" where
  "lower s = map lower_cp s"

text \<open>\<open>s.replace(c, "")\<close> for a one-character \<open>c\<close>.\<close>

definition remove_char :: "nat \<Rightarrow> str \<Rightarrow> str" where
  "remove_char c s = filter (\<lambda>x. x \<noteq> c) s"

text \<open>
  \<open>int(s)\<close> on text, as Python 3.11 computes it: white space around the number is
  dropped, then an optional sign and decimal digits follow, with single underscores
  allowed between digits. A decimal digit is any character of the Unicode category Nd
  (Unicode 14.0, the tables of Python 3.11): sixty-six runs of ten code points, each
  starting at its zero. A number of more than 4300 digits is refused
  (\<open>sys.get_int_max_str_digits()\<close>); neither the sign, the underscores nor the white
  space count as digits. \<open>None\<close> is \<open>ValueError\<close>.
\<close>

definition is_space :: "nat \<Rightarrow> bool" where
  "is_space c = (c \<in> {9, 10, 11, 12, 13, 32, 0x85, 0xA0, 0x1680, 0x2000,
     0x2001, 0x2002, 0x2003, 0x2004, 0x2005, 0x2006, 0x2007, 0x2008, 0x2009, 0x200A,
     0x2028, 0x2029, 0x202F, 0x205F, 0x3000})"

definition decimal_zeros :: "nat list" where
  "decimal_zeros =
    [0x30, 0x660, 0x6F0, 0x7C0, 0x966, 0x9E6, 0xA66, 0xAE6,
     0xB66, 0xBE6, 0xC66, 0xCE6, 0xD66, 0xDE6, 0xE50, 0xED0,
     0xF20, 0x1040, 0x1090, 0x17E0, 0x1810, 0x1946, 0x19D0, 0x1A80,
     0x1A90, 0x1B50, 0x1BB0, 0x1C40, 0x1C50, 0xA620, 0xA8D0, 0xA900,
     0xA9D0, 0xA9F0, 0xAA50, 0xABF0, 0xFF10, 0x104A0, 0x10D30, 0x11066,
     0x110F0, 0x11136, 0x111D0, 0x112F0, 0x11450, 0x114D0, 0x11650, 0x116C0,
     0x11730, 0x118E0, 0x11950, 0x11C50, 0x11D50, 0x11DA0, 0x16A60, 0x16AC0,
     0x16B50, 0x1D7CE, 0x1D7D8, 0x1D7E2, 0x1D7EC, 0x1D7F6, 0x1E140, 0x1E2F0,
     0x1E950, 0x1FBF0]"

definition digit_value :: "nat \<Rightarrow> nat option" where
  "digit_value c =
     map_option (\<lambda>z. c - z) (find (\<lambda>z. z \<le> c \<and> c < z + 10) decimal_zeros)"

definition is_digit :: "nat \<Rightarrow> bool" where
  "is_digit c = (digit_value c \<noteq> None)"

definition MAX_STR_DIGITS :: nat where
  "MAX_STR_DIGITS = 4300"

definition strip :: "str \<Rightarrow> str" where
  "strip s = rev (dropWhile is_space (rev (dropWhile is_space s)))"

fun int_digits :: "str \<Rightarrow> int \<Rightarrow> int option" where
  "int_digits [] acc = Some acc"
| "int_digits (c # cs) acc =
     (case digit_value c of
        Some v \<Rightarrow> int_digits cs (10 * acc + int v)
      | None \<Rightarrow>
          if c = 95 then
            (case cs of [] \<Rightarrow> None
             | d # ds \<Rightarrow> if is_digit d then int_digits cs acc else None)
          else None)"

definition unsigned_int :: "str \<Rightarrow> int option" where
  "unsigned_int s =
     (case s of
        [] \<Rightarrow> None
      | c # cs \<Rightarrow>
          if is_digit c \<and> length (filter is_digit s) \<le> MAX_STR_DIGITS then int_digits s 0
          else None)"

definition py_int :: "str \<Rightarrow> int option" where
  "py_int s =
     (case strip s of
        [] \<Rightarrow> None
      | c # cs \<Rightarrow>
          if c = 45 then map_option uminus (unsigned_int cs)
          else if c = 43 then unsigned_int cs
          else unsigned_int (c # cs))"

text \<open>
  \<open>bytes.fromhex(s)\<close>: ASCII white space is skipped before each byte, a byte is two
  hexadecimal digits in a row, anything else is \<open>ValueError\<close> (\<open>None\<close>).
\<close>

definition is_ascii_space :: "nat \<Rightarrow> bool" where
  "is_ascii_space c = (c \<in> {9, 10, 11, 12, 13, 32})"

definition hexval :: "nat \<Rightarrow> nat option" where
  "hexval c =
     (if 48 \<le> c \<and> c \<le> 57 then Some (c - 48)
      else if 97 \<le> c \<and> c \<le> 102 then Some (c - 87)
      else if 65 \<le> c \<and> c \<le> 70 then Some (c - 55)
      else None)"

fun fromhex :: "str \<Rightarrow> bytes option" where
  "fromhex [] = Some []"
| "fromhex (c # cs) =
     (if is_ascii_space c then fromhex cs
      else (case hexval c of
              None \<Rightarrow> None
            | Some hi \<Rightarrow>
                (case cs of
                   [] \<Rightarrow> None
                 | d # ds \<Rightarrow>
                     (case hexval d of
                        None \<Rightarrow> None
                      | Some lo \<Rightarrow> map_option ((#) (of_nat (16 * hi + lo))) (fromhex ds)))))"

text \<open>
  A \<open>range\<close> with step 1, and \<open>irange\<close> of \<open>common.py\<close>, the inclusive range, with one
  and with two arguments. A range is true when it is not empty.
\<close>

datatype py_range = Range int int

fun range_nonempty :: "py_range \<Rightarrow> bool" where
  "range_nonempty (Range a b) = (a < b)"

fun in_range :: "int \<Rightarrow> py_range \<Rightarrow> bool" where
  "in_range v (Range a b) = (a \<le> v \<and> v < b)"

definition irange :: "int \<Rightarrow> py_range" where
  "irange a = Range 0 (a + 1)"

definition irange2 :: "int \<Rightarrow> int \<Rightarrow> py_range" where
  "irange2 a b = Range a (b + 1)"

text \<open>\<open>list.insert(i, x)\<close>: a negative index counts from the end, and the index clamps.\<close>

definition list_insert :: "'a list \<Rightarrow> int \<Rightarrow> 'a \<Rightarrow> 'a list" where
  "list_insert xs i x =
     (let n = int (length xs);
          j = (if i < 0 then max 0 (n + i) else min i n)
      in take (nat j) xs @ [x] @ drop (nat j) xs)"

text \<open>
  \<open>where.find(what, start)\<close>: the lowest index from \<open>start\<close> on at which \<open>what\<close> occurs,
  \<open>None\<close> for Python's \<open>-1\<close>.
\<close>

function py_find :: "bytes \<Rightarrow> bytes \<Rightarrow> nat \<Rightarrow> nat option" where
  "py_find w what i =
     (if length w < i + length what then None
      else if slice_of w i (i + length what) = what then Some i
      else py_find w what (i + 1))"
  by pat_completeness auto

termination
  by (relation "measure (\<lambda>(w, what, i). Suc (length w) - i)") auto

declare py_find.simps [simp del]

text \<open>
  What \<open>find\<close> returns lies between \<open>start\<close> and the end of \<open>where\<close>; the loop of
  \<open>find_all\<close> terminates by this.
\<close>

lemma py_find_Some: "py_find w what i = Some p \<Longrightarrow> i \<le> p \<and> p \<le> length w"
proof (induction w what i rule: py_find.induct)
  case (1 w what i)
  show ?case
  proof (cases "length w < i + length what")
    case True
    with "1.prems" show ?thesis by (subst (asm) py_find.simps) simp
  next
    case fits: False
    show ?thesis
    proof (cases "slice_of w i (i + length what) = what")
      case True
      with fits "1.prems" show ?thesis by (subst (asm) py_find.simps) simp
    next
      case False
      with fits "1.prems" have "py_find w what (i + 1) = Some p"
        by (subst (asm) py_find.simps) simp
      from "1.IH" [OF fits False this] show ?thesis by simp
    qed
  qed
qed

section \<open>Typed field assignment\<close>

text \<open>
  \<open>set_variable\<close> of \<open>common.py\<close>. The type hint of the field picks the branch; the result
  is the value that \<open>setattr\<close> stores. \<open>r and v not in r\<close> is \<open>violates r v\<close>.

  The messages of the \<open>str\<close> and the \<open>bool\<close> branch format the local variable \<open>value\<close>,
  which only the \<open>int\<close> and the \<open>bytes\<close> branch assign: building the message raises
  \<open>UnboundLocalError\<close> before \<open>AppotechError\<close> is constructed.
\<close>

datatype field_type = T_int | T_bytes | T_bytearray | T_str | T_bool | T_other

datatype pyval = V_int int | V_bytes bytes | V_str str | V_bool bool

definition violates :: "py_range option \<Rightarrow> int \<Rightarrow> bool" where
  "violates r v = (case r of None \<Rightarrow> False | Some rg \<Rightarrow> range_nonempty rg \<and> \<not> in_range v rg)"

definition set_bytes :: "str \<Rightarrow> py_range option \<Rightarrow> error + pyval" where
  "set_bytes var_value len_range =
     (case fromhex (lower (remove_char 32 (remove_char 58 var_value))) of
        None \<Rightarrow> Inl ValueError
      | Some value \<Rightarrow>
          if violates len_range (int (length value)) then Inl OutOfRange
          else Inr (V_bytes value))"

definition set_variable ::
  "field_type \<Rightarrow> str \<Rightarrow> py_range option \<Rightarrow> py_range option \<Rightarrow> error + pyval" where
  "set_variable var_type var_value val_range len_range =
     (case var_type of
        T_int \<Rightarrow>
          (case py_int var_value of
             None \<Rightarrow> Inl ValueError
           | Some value \<Rightarrow>
               if violates val_range value then Inl OutOfRange else Inr (V_int value))
      | T_bytes \<Rightarrow> set_bytes var_value len_range
      | T_bytearray \<Rightarrow> set_bytes var_value len_range
      | T_str \<Rightarrow>
          if violates len_range (int (length var_value)) then Inl UnboundLocalError
          else Inr (V_str var_value)
      | T_bool \<Rightarrow>
          (let v = lower var_value
           in if v = str_of ''1'' \<or> v = str_of ''true'' then Inr (V_bool True)
              else if v = str_of ''0'' \<or> v = str_of ''false'' then Inr (V_bool False)
              else Inl UnboundLocalError)
      | T_other \<Rightarrow> Inl UnsupportedType)"

section \<open>UTF-8 and \<open>struct\<close>\<close>

text \<open>
  \<open>str.encode()\<close>: UTF-8, strict. A surrogate code point raises \<open>UnicodeEncodeError\<close>
  (\<open>None\<close>); a \<open>str\<close> holds no code point above \<open>0x10FFFF\<close>.
\<close>

definition utf8_encode_cp :: "nat \<Rightarrow> bytes option" where
  "utf8_encode_cp c =
     (if c < 0x80 then Some [of_nat c]
      else if c < 0x800 then Some [of_nat (0xC0 + c div 64), of_nat (0x80 + c mod 64)]
      else if c < 0x10000 then
        (if 0xD800 \<le> c \<and> c \<le> 0xDFFF then None
         else Some [of_nat (0xE0 + c div 4096), of_nat (0x80 + c div 64 mod 64),
                    of_nat (0x80 + c mod 64)])
      else if c < 0x110000 then
        Some [of_nat (0xF0 + c div 262144), of_nat (0x80 + c div 4096 mod 64),
              of_nat (0x80 + c div 64 mod 64), of_nat (0x80 + c mod 64)]
      else None)"

fun utf8_encode :: "str \<Rightarrow> bytes option" where
  "utf8_encode [] = Some []"
| "utf8_encode (c # cs) =
     (case utf8_encode_cp c of
        None \<Rightarrow> None
      | Some bs \<Rightarrow> map_option ((@) bs) (utf8_encode cs))"

text \<open>
  \<open>bytes.decode("utf-8")\<close>: strict as well. It takes the well-formed sequences only, so
  no overlong form, no surrogate and nothing above \<open>0x10FFFF\<close>: the second byte of a
  sequence is confined by its first byte (\<open>second_lo\<close>, \<open>second_hi\<close>). \<open>None\<close> is
  \<open>UnicodeDecodeError\<close>.
\<close>

definition is_cont :: "byte \<Rightarrow> bool" where
  "is_cont b = (0x80 \<le> unat b \<and> unat b \<le> 0xBF)"

definition second_lo :: "nat \<Rightarrow> nat" where
  "second_lo n = (if n = 0xE0 then 0xA0 else if n = 0xF0 then 0x90 else 0x80)"

definition second_hi :: "nat \<Rightarrow> nat" where
  "second_hi n = (if n = 0xED then 0x9F else if n = 0xF4 then 0x8F else 0xBF)"

fun utf8_decode :: "bytes \<Rightarrow> str option" where
  "utf8_decode [] = Some []"
| "utf8_decode (b # bs) =
     (if unat b < 0x80 then map_option ((#) (unat b)) (utf8_decode bs)
      else if 0xC2 \<le> unat b \<and> unat b \<le> 0xDF then
        (case bs of
           c1 # r \<Rightarrow>
             if is_cont c1
             then map_option ((#) ((unat b - 0xC0) * 64 + (unat c1 - 0x80))) (utf8_decode r)
             else None
         | _ \<Rightarrow> None)
      else if 0xE0 \<le> unat b \<and> unat b \<le> 0xEF then
        (case bs of
           c1 # c2 # r \<Rightarrow>
             if second_lo (unat b) \<le> unat c1 \<and> unat c1 \<le> second_hi (unat b) \<and> is_cont c2
             then map_option ((#) ((unat b - 0xE0) * 4096 + (unat c1 - 0x80) * 64
                                     + (unat c2 - 0x80))) (utf8_decode r)
             else None
         | _ \<Rightarrow> None)
      else if 0xF0 \<le> unat b \<and> unat b \<le> 0xF4 then
        (case bs of
           c1 # c2 # c3 # r \<Rightarrow>
             if second_lo (unat b) \<le> unat c1 \<and> unat c1 \<le> second_hi (unat b)
                \<and> is_cont c2 \<and> is_cont c3
             then map_option ((#) ((unat b - 0xF0) * 262144 + (unat c1 - 0x80) * 4096
                                     + (unat c2 - 0x80) * 64 + (unat c3 - 0x80))) (utf8_decode r)
             else None
         | _ \<Rightarrow> None)
      else None)"

text \<open>
  The \<open>struct\<close> codes the formats use: \<open>B\<close> (one unsigned byte, \<open>struct.error\<close> outside
  0..255), \<open>Ns\<close> (a byte string cut or NUL-padded to \<open>N\<close> bytes), \<open>Nx\<close> (\<open>N\<close> zero bytes)
  and little-endian \<open>H\<close> (\<open>struct.error\<close> outside 0..65535).
\<close>

definition ubyte_ok :: "int \<Rightarrow> bool" where
  "ubyte_ok v = (0 \<le> v \<and> v \<le> 255)"

definition pack_s :: "nat \<Rightarrow> bytes \<Rightarrow> bytes" where
  "pack_s n bs = take n bs @ replicate (n - length bs) 0"

definition pack_H :: "int \<Rightarrow> error + bytes" where
  "pack_H v =
     (if 0 \<le> v \<and> v < 65536 then Inr [word_of_int (v mod 256), word_of_int (v div 256)]
      else Inl StructError)"

definition unpack_H :: "bytes \<Rightarrow> int" where
  "unpack_H bs = uint (bs ! 0) + 256 * uint (bs ! 1)"

text \<open>\<open>sum(data)\<close> over bytes, \<open>data.startswith(prefix)\<close> and \<open>name.split(b"\x00")[0]\<close>.\<close>

definition bytes_sum :: "bytes \<Rightarrow> int" where
  "bytes_sum data = sum_list (map uint data)"

definition startswith :: "bytes \<Rightarrow> bytes \<Rightarrow> bool" where
  "startswith data pre = (take (length pre) data = pre)"

definition until_nul :: "bytes \<Rightarrow> bytes" where
  "until_nul bs = takeWhile (\<lambda>b. b \<noteq> 0) bs"

section \<open>The BtInfo codec\<close>

text \<open>
  \<open>BtInfo\<close> of \<open>obj/btinfo.py\<close>. The format is \<open><xBBBB4x32s6s10xH\<close>, 59 bytes, after the
  five bytes of the magic, so \<open>SIZE\<close> is 64.
\<close>

record BtInfo =
  flags :: int
  mic_unmute_thresh :: int
  mic_mute_thresh :: int
  mic_mute_duration :: int
  bt_name :: str
  bt_mac :: bytes
  checksum :: int

definition BtInfo_MAGIC :: bytes where
  "BtInfo_MAGIC = [0x42, 0x54, 0x49, 0x4E, 0x46]"

definition BtInfo_FMT_size :: nat where
  "BtInfo_FMT_size = 1 + 1 + 1 + 1 + 1 + 4 + 32 + 6 + 10 + 2"

definition BtInfo_SIZE :: nat where
  "BtInfo_SIZE = length BtInfo_MAGIC + BtInfo_FMT_size"

text \<open>\<open>BtInfo()\<close>: the defaults of the constructor.\<close>

definition BtInfo_new :: BtInfo where
  "BtInfo_new = \<lparr>flags = 0, mic_unmute_thresh = 0, mic_mute_thresh = 0, mic_mute_duration = 0,
                  bt_name = [], bt_mac = replicate 6 0, checksum = 0\<rparr>"

text \<open>
  \<open>BtInfo.__bytes__\<close>. The arguments of \<open>struct.pack\<close> are evaluated first, so a name
  that cannot be encoded fails before a number out of range does.
\<close>

definition BtInfo_bytes :: "BtInfo \<Rightarrow> error + bytes" where
  "BtInfo_bytes r =
     (case utf8_encode (bt_name r) of
        None \<Rightarrow> Inl UnicodeEncodeError
      | Some name \<Rightarrow>
          if ubyte_ok (flags r) \<and> ubyte_ok (mic_unmute_thresh r) \<and> ubyte_ok (mic_mute_thresh r)
             \<and> ubyte_ok (mic_mute_duration r)
          then
            (let data_without_checksum =
                   BtInfo_MAGIC @ [0]
                   @ [word_of_int (flags r), word_of_int (mic_unmute_thresh r),
                      word_of_int (mic_mute_thresh r), word_of_int (mic_mute_duration r)]
                   @ replicate 4 0 @ pack_s 32 name @ pack_s 6 (rev (bt_mac r))
                   @ replicate 10 0
             in case pack_H (bytes_sum data_without_checksum) of
                  Inl e \<Rightarrow> Inl e
                | Inr cs \<Rightarrow> Inr (data_without_checksum @ cs))
          else Inl StructError)"

text \<open>
  \<open>BtInfo.load\<close>: the record read and the log. The slice \<open>data[off : self.SIZE]\<close> has
  exactly 59 bytes after the size check, so \<open>struct.unpack\<close> cannot fail.
\<close>

definition BtInfo_load :: "bytes \<Rightarrow> error + (BtInfo \<times> log_msg list)" where
  "BtInfo_load data =
     (if length data < BtInfo_SIZE then Inl (Truncated BtInfo_SIZE (length data))
      else if \<not> startswith data BtInfo_MAGIC then Inl InvalidMagic
      else
        (let body = slice_of data (length BtInfo_MAGIC) BtInfo_SIZE;
             stored = unpack_H (slice_of body 57 59)
         in case utf8_decode (until_nul (slice_of body 9 41)) of
              None \<Rightarrow> Inl InvalidEncoding
            | Some name \<Rightarrow>
                (let our_checksum = bytes_sum (take (BtInfo_SIZE - 2) data)
                 in Inr (\<lparr>flags = uint (body ! 1), mic_unmute_thresh = uint (body ! 2),
                           mic_mute_thresh = uint (body ! 3), mic_mute_duration = uint (body ! 4),
                           bt_name = name, bt_mac = rev (slice_of body 41 47), checksum = stored\<rparr>,
                         if our_checksum \<noteq> stored then [ChecksumWarning our_checksum stored]
                         else []))))"

section \<open>Pairing entries and their insertion\<close>

text \<open>\<open>BtPairing.Entry\<close>, and the entry that \<open>BtPairing.Entry()\<close> constructs.\<close>

record Entry =
  link_key :: bytes
  bt_mac :: bytes
  bt_name :: str
  is_valid :: bool

definition Entry_new :: Entry where
  "Entry_new = \<lparr>link_key = [], bt_mac = [], bt_name = [], is_valid = False\<rparr>"

text \<open>
  \<open>indices_atoi_list\<close> of \<open>common.py\<close>: \<open>None\<close> for text that is no integer or an index
  above \<open>max_val\<close>, otherwise the indices sorted in descending order
  (\<open>result.sort(reverse=True)\<close>).
\<close>

fun atoi_loop :: "str list \<Rightarrow> int \<Rightarrow> int list \<Rightarrow> int list option" where
  "atoi_loop [] max_val result = Some result"
| "atoi_loop (s # src) max_val result =
     (case py_int s of
        None \<Rightarrow> None
      | Some i \<Rightarrow> if i > max_val then None else atoi_loop src max_val (result @ [i]))"

definition indices_atoi_list :: "str list \<Rightarrow> int \<Rightarrow> int list option" where
  "indices_atoi_list src max_val = map_option (\<lambda>result. rev (sort result)) (atoi_loop src max_val [])"

text \<open>
  \<open>AppotechBtPairing.add_entries\<close>: the indices come from \<open>indices_atoi_list\<close>, so they
  are applied in descending order; \<open>None\<close> and the empty list both end in \<open>sys.exit(1)\<close>.
\<close>

fun insert_all :: "Entry list \<Rightarrow> int list \<Rightarrow> Entry list" where
  "insert_all entries [] = entries"
| "insert_all entries (i # idx) = insert_all (list_insert entries i Entry_new) idx"

definition add_entries :: "str list \<Rightarrow> Entry list \<Rightarrow> error + Entry list" where
  "add_entries args entries =
     (case indices_atoi_list args (int (length entries)) of
        None \<Rightarrow> Inl InvalidIndex
      | Some idx \<Rightarrow> if idx = [] then Inl InvalidIndex else Inr (insert_all entries idx))"

section \<open>The BtPairing codec\<close>

text \<open>
  \<open>BtPairing.Entry.load\<close>, format \<open><16s6s32sB\<close>. \<open>struct.unpack\<close> wants exactly \<open>SIZE\<close>
  bytes; its \<open>struct.error\<close> and the \<open>UnicodeDecodeError\<close> of the name are both caught and
  raised again as the \<open>AppotechError\<close> "Could not load entry".
\<close>

definition Entry_SIZE :: nat where
  "Entry_SIZE = 16 + 6 + 32 + 1"

definition Entry_load :: "bytes \<Rightarrow> error + Entry" where
  "Entry_load data =
     (if length data < Entry_SIZE then Inl (Truncated Entry_SIZE (length data))
      else if length data \<noteq> Entry_SIZE then Inl InvalidEncoding
      else (case utf8_decode (until_nul (slice_of data 22 54)) of
              None \<Rightarrow> Inl InvalidEncoding
            | Some name \<Rightarrow>
                Inr \<lparr>link_key = slice_of data 0 16, bt_mac = rev (slice_of data 16 22),
                     bt_name = name, is_valid = (data ! 54 = 1)\<rparr>))"

record BtPairing =
  entries :: "Entry list"
  paired_idx :: int

definition BtPairing_MAGIC :: bytes where
  "BtPairing_MAGIC = [0x42, 0x54, 0x50, 0x41, 0x49, 0x52, 0x45, 0x44,
                      0x49, 0x4E, 0x46, 0x4F, 0x48, 0x45, 0x41, 0x44]"

definition BtPairing_HDR_SIZE :: nat where
  "BtPairing_HDR_SIZE = length BtPairing_MAGIC"

text \<open>
  The \<open>while True\<close> loop of \<open>BtPairing.load\<close>: the entries read so far and the offset
  where the loop stopped, or the error of an entry. \<open>size_check = len(data) - off\<close> is
  never negative, since \<open>off\<close> only grows by \<open>SIZE\<close> when that many bytes remain.
\<close>

function read_entries :: "bytes \<Rightarrow> nat \<Rightarrow> Entry list \<Rightarrow> error + (Entry list \<times> nat)" where
  "read_entries data off acc =
     (if length data - off < Entry_SIZE then Inr (acc, off)
      else (let entry_data = slice_of data off (off + Entry_SIZE)
            in if last entry_data \<noteq> 1 then Inr (acc, off)
               else (case Entry_load entry_data of
                       Inl e \<Rightarrow> Inl e
                     | Inr entry \<Rightarrow> read_entries data (off + Entry_SIZE) (acc @ [entry]))))"
  by pat_completeness auto

termination
  by (relation "measure (\<lambda>(data, off, acc). length data - off)") (auto simp: Entry_SIZE_def)

declare read_entries.simps [simp del]

text \<open>\<open>BtPairing.load\<close>. The list is cleared first, so the loop starts from no entries.\<close>

definition BtPairing_load :: "bytes \<Rightarrow> error + BtPairing" where
  "BtPairing_load data =
     (if length data < BtPairing_HDR_SIZE + Entry_SIZE + 1
      then Inl (Truncated (BtPairing_HDR_SIZE + Entry_SIZE + 1) (length data))
      else if \<not> startswith data BtPairing_MAGIC then Inl InvalidMagic
      else (case read_entries data BtPairing_HDR_SIZE [] of
              Inl e \<Rightarrow> Inl e
            | Inr (es, off) \<Rightarrow>
                if es = [] then Inl Empty
                else if length data - off < 1 then Inl (Truncated 1 (length data - off))
                else Inr \<lparr>entries = es, paired_idx = uint (data ! off)\<rparr>))"

text \<open>
  Entry \<open>k\<close> of a pairing stream is accepted when all its bytes are there and its raw
  \<open>is_valid\<close> byte, the last of the entry, is exactly 1. \<open>load_first data off n\<close> loads
  the \<open>n\<close> consecutive entries from \<open>off\<close> in order and stops at the first that fails.
\<close>

definition accepted_at :: "bytes \<Rightarrow> nat \<Rightarrow> bool" where
  "accepted_at data k =
     (BtPairing_HDR_SIZE + (k + 1) * Entry_SIZE \<le> length data
      \<and> data ! (BtPairing_HDR_SIZE + k * Entry_SIZE + (Entry_SIZE - 1)) = 1)"

fun load_first :: "bytes \<Rightarrow> nat \<Rightarrow> nat \<Rightarrow> error + Entry list" where
  "load_first data off 0 = Inr []"
| "load_first data off (Suc n) =
     (case Entry_load (slice_of data off (off + Entry_SIZE)) of
        Inl e \<Rightarrow> Inl e
      | Inr entry \<Rightarrow>
          (case load_first data (off + Entry_SIZE) n of
             Inl e \<Rightarrow> Inl e
           | Inr es \<Rightarrow> Inr (entry # es)))"

text \<open>
  The pairing tool for comparison. \<open>BtPairing.length\<close>, and \<open>load_input\<close> followed by
  the \<open>mod_path\<close> branch of \<open>save_output\<close>: \<open>bp_off_start\<close> is
  \<open>input_binary.index(MAGIC)\<close>, \<open>bp_size\<close> the length of what was loaded from there, and
  \<open>blob\<close> the encoding of the edited database. Its decoder reads every entry and the
  index byte from the bytes that are there, so the region it replaces is inside the
  file and the length is always kept.
\<close>

definition BtPairing_length :: "BtPairing \<Rightarrow> nat" where
  "BtPairing_length bp = length BtPairing_MAGIC + length (entries bp) * Entry_SIZE + 1"

definition btpairing_inject :: "bytes \<Rightarrow> bytes \<Rightarrow> bool \<Rightarrow> error + (bytes \<times> log_msg list)" where
  "btpairing_inject blob input_binary force_write_mod =
     (case py_find input_binary BtPairing_MAGIC 0 of
        None \<Rightarrow> Inl NotFound
      | Some bp_off_start \<Rightarrow>
          (case BtPairing_load (slice_from input_binary (int bp_off_start)) of
             Inl e \<Rightarrow> Inl e
           | Inr bp \<Rightarrow>
               save_output_mod input_binary bp_off_start (BtPairing_length bp) blob
                 force_write_mod))"

section \<open>The SFX locator\<close>

text \<open>
  \<open>find_all\<close> of \<open>common.py\<close>, the generator, as the list of what it yields:
  \<open>find_all_from w what start\<close> is the loop with \<open>pos + 1 = start\<close>.
\<close>

function find_all_from :: "bytes \<Rightarrow> bytes \<Rightarrow> nat \<Rightarrow> nat list" where
  "find_all_from w what start =
     (case py_find w what start of
        None \<Rightarrow> []
      | Some pos \<Rightarrow> pos # find_all_from w what (pos + 1))"
  by pat_completeness auto

termination
  by (relation "measure (\<lambda>(w, what, start). Suc (length w) - start)")
     (auto dest: py_find_Some)

declare find_all_from.simps [simp del]

definition find_all :: "bytes \<Rightarrow> bytes \<Rightarrow> nat list" where
  "find_all w what = find_all_from w what 0"

definition SfxBlob_MAGIC :: bytes where
  "SfxBlob_MAGIC = [0x00, 0x08, 0x00, 0x00]"

definition SfxBlob_HDR_SIZE :: nat where
  "SfxBlob_HDR_SIZE = 0x800"

text \<open>
  The search of \<open>AppotechSfx.extract_load_input\<close>: the \<open>for\<close> loop over the candidates
  with its two \<open>continue\<close> and its \<open>break\<close>, and \<open>sb_off_start == -1\<close> as \<open>NotFound\<close>.
  \<open>zeroes <= SfxBlob.HDR_SIZE * 0.8\<close> compares an integer with the float \<open>1638.4\<close>; on
  integers that is \<open>10 * zeroes \<le> 8 * HDR_SIZE\<close>.
\<close>

fun locate_loop :: "bytes \<Rightarrow> nat list \<Rightarrow> error + nat" where
  "locate_loop input_binary [] = Inl NotFound"
| "locate_loop input_binary (test_off # rest) =
     (if test_off mod 0x80 \<noteq> 0 then locate_loop input_binary rest
      else (let zeroes = count_list
                  (slice_of input_binary test_off (test_off + SfxBlob_HDR_SIZE)) 0
            in if 10 * zeroes \<le> 8 * SfxBlob_HDR_SIZE then locate_loop input_binary rest
               else Inr test_off))"

definition sfx_locate :: "bytes \<Rightarrow> error + nat" where
  "sfx_locate input_binary =
     locate_loop input_binary
       (find_all (slice_to input_binary (- int SfxBlob_HDR_SIZE)) SfxBlob_MAGIC)"

text \<open>
  The selection rule in the spec's words. The candidates are the offsets, in ascending
  order, at which the four marker bytes occur in the buffer without its final
  \<open>HDR_SIZE\<close> bytes; a candidate survives when it is a multiple of \<open>0x80\<close> and more than
  80 percent of the \<open>HDR_SIZE\<close> bytes from it on are zero; the first survivor is the
  result.
\<close>

definition marker_at :: "bytes \<Rightarrow> nat \<Rightarrow> bool" where
  "marker_at buf p = (slice_of buf p (p + 4) = SfxBlob_MAGIC)"

definition candidates :: "bytes \<Rightarrow> nat list" where
  "candidates buf =
     (let body = take (length buf - SfxBlob_HDR_SIZE) buf
      in filter (marker_at body) [0 ..< length body])"

definition survives :: "bytes \<Rightarrow> nat \<Rightarrow> bool" where
  "survives buf p =
     (p mod 0x80 = 0
      \<and> 80 * SfxBlob_HDR_SIZE
          < 100 * count_list (slice_of buf p (p + SfxBlob_HDR_SIZE)) 0)"

definition first_survivor :: "bytes \<Rightarrow> error + nat" where
  "first_survivor buf =
     (case filter (survives buf) (candidates buf) of
        [] \<Rightarrow> Inl NotFound
      | p # _ \<Rightarrow> Inr p)"

text \<open>\<open>what\<close> occurs in \<open>w\<close> at \<open>p\<close>.\<close>

definition occurs :: "bytes \<Rightarrow> bytes \<Rightarrow> nat \<Rightarrow> bool" where
  "occurs w what p = (slice_of w p (p + length what) = what)"

section \<open>The SfxBlob decoder\<close>

text \<open>
  An entry of the blob: \<open>Mp3SfxEntry\<close> or \<open>WavSfxEntry\<close> by its format, with the fields
  of \<open>AbstractSfxEntry\<close> (\<open>offset\<close>, \<open>size\<close>, \<open>samplerate\<close>, \<open>contents\<close>) and those of the WAV
  trailer, which keep their class defaults (empty, 0, 0) on an MP3 entry.
\<close>

datatype sfx_format = MP3 | WAV

record SfxEntry =
  e_format :: sfx_format
  e_offset :: nat
  e_size :: nat
  e_samplerate :: nat
  contents :: bytes
  trailer :: bytes
  tr_samplerate :: nat
  tr_resolution :: nat

definition CHUNK_SIZE :: nat where
  "CHUNK_SIZE = 0x100"

definition WAV_TRAILER_SIZE :: nat where
  "WAV_TRAILER_SIZE = 0x100"

definition TRAILER_MAGIC :: bytes where
  "TRAILER_MAGIC = [0x57, 0x41, 0x56, 0x00]"

definition AbstractSfxEntry_SIZE :: nat where
  "AbstractSfxEntry_SIZE = 4 + 2 + 2"

definition total_size_in_bytes :: "SfxEntry \<Rightarrow> nat" where
  "total_size_in_bytes e =
     (case e_format e of
        MP3 \<Rightarrow> e_size e * CHUNK_SIZE
      | WAV \<Rightarrow> e_size e * CHUNK_SIZE + WAV_TRAILER_SIZE)"

text \<open>A little-endian unsigned integer, as \<open>struct.unpack\<close> reads \<open>I\<close> and \<open>H\<close>.\<close>

fun le_nat :: "bytes \<Rightarrow> nat" where
  "le_nat [] = 0"
| "le_nat (b # bs) = unat b + 256 * le_nat bs"

text \<open>
  The first loop of \<open>SfxBlob.load\<close>, \<open>for off in range(0, self.HDR_SIZE,
  AbstractSfxEntry.SIZE)\<close>, from offset \<open>off\<close> on: it stops at the first descriptor
  that is all zero. After the size check of \<open>load\<close> every slice has its 8 bytes, so
  \<open>struct.unpack\<close> cannot fail.
\<close>

function read_header :: "bytes \<Rightarrow> nat \<Rightarrow> SfxEntry list" where
  "read_header data off =
     (if SfxBlob_HDR_SIZE \<le> off then []
      else (let d = slice_of data off (off + AbstractSfxEntry_SIZE);
                offset = le_nat (slice_of d 0 4);
                sz = le_nat (slice_of d 4 6);
                rate = le_nat (slice_of d 6 8)
            in if offset = 0 \<and> sz = 0 \<and> rate = 0 then []
               else \<lparr>e_format = (if rate \<noteq> 0 then WAV else MP3), e_offset = offset,
                      e_size = sz, e_samplerate = rate, contents = [], trailer = [],
                      tr_samplerate = 0, tr_resolution = 0\<rparr>
                    # read_header data (off + AbstractSfxEntry_SIZE)))"
  by pat_completeness auto

termination
  by (relation "measure (\<lambda>(data, off). SfxBlob_HDR_SIZE - off)")
     (auto simp: AbstractSfxEntry_SIZE_def)

declare read_header.simps [simp del]

text \<open>
  \<open>import_from_blob\<close> of the two entry classes: the entry with its payload, and the log.
\<close>

definition import_from_blob :: "SfxEntry \<Rightarrow> bytes \<Rightarrow> error + (SfxEntry \<times> log_msg list)" where
  "import_from_blob e data =
     (case e_format e of
        MP3 \<Rightarrow> Inr (e\<lparr>contents := data\<rparr>, [])
      | WAV \<Rightarrow>
          (let wav_test = slice_to (slice_from data (- int WAV_TRAILER_SIZE)) 4
           in if wav_test \<noteq> TRAILER_MAGIC then Inr (e\<lparr>contents := data\<rparr>, [TrailerWarning])
              else (let tr = slice_from data (- int WAV_TRAILER_SIZE)
                    in if length tr \<noteq> WAV_TRAILER_SIZE
                       then Inl (Truncated WAV_TRAILER_SIZE (length tr))
                       else Inr (e\<lparr>contents := slice_to data (- int WAV_TRAILER_SIZE),
                                   trailer := tr, tr_samplerate := unat (tr ! 4),
                                   tr_resolution := unat (tr ! 5)\<rparr>, []))))"

text \<open>
  The second loop of \<open>SfxBlob.load\<close>: \<open>size_check\<close> is the entry's span alone, and the
  buffer's length is compared with it, not with \<open>entry.offset + size_check\<close>; the
  payload is \<open>data[entry.offset : entry.offset + size_check]\<close>.
\<close>

fun import_entries :: "bytes \<Rightarrow> SfxEntry list \<Rightarrow> error + (SfxEntry list \<times> log_msg list)" where
  "import_entries data [] = Inr ([], [])"
| "import_entries data (entry # rest) =
     (let size_check = total_size_in_bytes entry
      in if length data < size_check then Inl (Truncated size_check (length data))
         else (case import_from_blob entry
                      (slice_of data (e_offset entry) (e_offset entry + size_check)) of
                 Inl err \<Rightarrow> Inl err
               | Inr (entry', log) \<Rightarrow>
                   (case import_entries data rest of
                      Inl err \<Rightarrow> Inl err
                    | Inr (rest', logs) \<Rightarrow> Inr (entry' # rest', log @ logs))))"

definition SfxBlob_load :: "bytes \<Rightarrow> error + (SfxEntry list \<times> log_msg list)" where
  "SfxBlob_load data =
     (if length data < SfxBlob_HDR_SIZE then Inl (Truncated SfxBlob_HDR_SIZE (length data))
      else import_entries data (read_header data 0))"

text \<open>\<open>SfxBlob.total_size_in_bytes\<close>.\<close>

definition SfxBlob_total_size :: "SfxEntry list \<Rightarrow> nat" where
  "SfxBlob_total_size es = SfxBlob_HDR_SIZE + sum_list (map total_size_in_bytes es)"

text \<open>
  \<open>AppotechSfx.extract_load_input\<close> on the bytes of the file: \<open>sb_off_start\<close> and
  \<open>sb_size\<close>. \<open>repack_inject_output\<close> calls it on the firmware to inject into, after
  \<open>blob = bytes(self.sb)\<close>, and goes on with the size comparison.
\<close>

definition extract_load_input :: "bytes \<Rightarrow> error + (nat \<times> nat)" where
  "extract_load_input input_binary =
     (case sfx_locate input_binary of
        Inl e \<Rightarrow> Inl e
      | Inr sb_off_start \<Rightarrow>
          (case SfxBlob_load (slice_from input_binary (int sb_off_start)) of
             Inl e \<Rightarrow> Inl e
           | Inr (es, log) \<Rightarrow> Inr (sb_off_start, SfxBlob_total_size es)))"

definition repack_inject_output ::
  "bytes \<Rightarrow> bytes \<Rightarrow> bool \<Rightarrow> error + (bytes \<times> log_msg list)" where
  "repack_inject_output blob input_binary force_inject =
     (case extract_load_input input_binary of
        Inl e \<Rightarrow> Inl e
      | Inr (sb_off_start, sb_size) \<Rightarrow>
          repack_inject input_binary sb_off_start sb_size blob force_inject)"

chapter \<open>Properties\<close>

section \<open>Properties of the injection engine\<close>

lemma length_splice:
  "start \<le> length input_binary \<Longrightarrow>
   length (splice_bytes input_binary start blob) = max (length input_binary) (start + length blob)"
  by (simp add: splice_bytes_def slice_to_def slice_from_def nat_add_distrib)

lemma align_bytes_smaller:
  assumes "length blob < sz" and "blob \<noteq> []"
  shows "align_bytes blob sz pad = Inr (blob @ replicate (sz - length blob) pad)"
proof -
  obtain n where n: "length blob = Suc n"
    using assms(2) by (cases blob) auto
  have "(length blob + sz - 1) div sz = 1"
    using assms(1) n by (intro div_nat_eqI) auto
  with assms(1) show ?thesis
    by (simp add: align_bytes_def ljust_def Let_def)
qed

text \<open>
  What the two tools do with a new sector that is shorter than the region it replaces.
  The SFX tool pads it with \<open>0xFF\<close> up to the old size. The pairing tool computes
  \<open>padding_sz = len(blob) - self.bp_size\<close>, which is negative here, so
  \<open>b"\xFF" * padding_sz\<close> is empty: nothing is appended, and the bytes of the old sector
  behind the new one stay in the file.
\<close>

lemma repack_inject_smaller:
  "length blob < sb_size \<Longrightarrow> blob \<noteq> [] \<Longrightarrow>
   repack_inject input_binary start sb_size blob f =
     Inr (take start input_binary @ blob @ replicate (sb_size - length blob) 0xFF
            @ drop (start + sb_size) input_binary,
          [PaddingInfo (int sb_size - int (length blob))])"
  by (simp add: repack_inject_def align_bytes_smaller splice_bytes_def slice_to_def
      slice_from_def Let_def nat_add_distrib)

lemma save_output_mod_smaller:
  "length blob < bp_size \<Longrightarrow> start \<le> length input_binary \<Longrightarrow>
   save_output_mod input_binary start bp_size blob f =
     Inr (take start input_binary @ blob @ drop (start + length blob) input_binary,
          [PaddingWarning (int (length blob) - int bp_size)])"
  by (simp add: save_output_mod_def splice_bytes_def slice_to_def slice_from_def
      bytes_times_def Let_def nat_add_distrib)

text \<open>
  Claim C1 (injection of a smaller sector pads with \<open>0xFF\<close> on both paths) at the spec's
  own example, on the pairing path: a 120-byte file whose sector is the 100 bytes from
  offset 10, every one of them \<open>0x01\<close>, and a new sector of 80 bytes \<open>0x07\<close>. The claim
  gives 20 bytes \<open>0xFF\<close> after the new sector; \<open>save_output\<close> leaves the last 20 bytes
  of the old sector there and logs a padding of \<open>-20\<close> bytes.
\<close>

theorem C1_btpairing_smaller_injection_not_padded:
  "save_output_mod (replicate 10 0 @ replicate 100 1 @ replicate 10 2) 10 100
       (replicate 80 7) False
     = Inr (replicate 10 0 @ replicate 80 7 @ replicate 20 1 @ replicate 10 2,
            [PaddingWarning (- 20)])"
  by (simp add: save_output_mod_def splice_bytes_def slice_to_def slice_from_def
      bytes_times_def Let_def)

text \<open>
  Claim C4 (oversized injection policy). For a new sector longer than the replaced region,
  at an offset inside the file: without the force flag both tools exit with
  \<open>Overflow\<close> and hand nothing to the writer; with it, \<open>delta = start + new_size -
  len(input_binary)\<close> is computed, the new bytes lose their last \<open>delta\<close> bytes when
  \<open>delta > 0\<close>, the truncation is logged exactly then, and the spliced result is never
  longer than the original file.
\<close>

theorem C4_oversized_injection_policy:
  assumes "old_size < length blob" and "start \<le> length input_binary"
  shows "save_output_mod input_binary start old_size blob False = Inl Overflow
       \<and> repack_inject input_binary start old_size blob False = Inl Overflow
       \<and> (let delta = int start + int (length blob) - int (length input_binary);
              kept = (if delta > 0 then take (length blob - nat delta) blob else blob);
              out = take start input_binary @ kept @ drop (start + length kept) input_binary;
              logs = (if delta > 0 then [TruncatingWarning delta] else [])
          in save_output_mod input_binary start old_size blob True = Inr (out, logs)
           \<and> repack_inject input_binary start old_size blob True = Inr (out, logs)
           \<and> length out \<le> length input_binary)"
  using assms
  apply (simp add: save_output_mod_def repack_inject_def splice_bytes_def slice_to_def
      slice_from_def Let_def nat_add_distrib)
  apply (auto simp: nat_diff_distrib nat_add_distrib min_def)
  done

text \<open>
  The spec's example: the old region is 100 bytes at offset 5, only 10 bytes follow it in
  the file, and the new sector has 120 bytes. Forced, it is cut to 110 bytes.
\<close>

theorem C4_oversized_injection_policy_witness:
  "(100::nat) < length (replicate 120 (3::byte))
   \<and> (5::nat) \<le> length (replicate 5 (0::byte) @ replicate 100 1 @ replicate 10 2)
   \<and> save_output_mod (replicate 5 0 @ replicate 100 1 @ replicate 10 2) 5 100
        (replicate 120 3) False = Inl Overflow
   \<and> repack_inject (replicate 5 0 @ replicate 100 1 @ replicate 10 2) 5 100
        (replicate 120 3) False = Inl Overflow
   \<and> save_output_mod (replicate 5 0 @ replicate 100 1 @ replicate 10 2) 5 100
        (replicate 120 3) True = Inr (replicate 5 0 @ replicate 110 3, [TruncatingWarning 10])
   \<and> repack_inject (replicate 5 0 @ replicate 100 1 @ replicate 10 2) 5 100
        (replicate 120 3) True = Inr (replicate 5 0 @ replicate 110 3, [TruncatingWarning 10])"
  using C4_oversized_injection_policy
    [of 100 "replicate 120 3" 5 "replicate 5 0 @ replicate 100 1 @ replicate 10 2"]
  by (simp add: Let_def)

section \<open>Properties of typed field assignment\<close>

text \<open>
  No input makes the \<open>str\<close> branch end in the \<open>AppotechError\<close> for a value out of
  range, nor the \<open>bool\<close> branch in the one for an unsupported token: what the two
  branches refuse, they refuse by \<open>UnboundLocalError\<close>. The \<open>bytes\<close> branch does raise
  the \<open>AppotechError\<close> when the decoded length is outside a nonempty range.
\<close>

lemma set_variable_str_refusal:
  "set_variable T_str var_value val_range len_range =
     (if violates len_range (int (length var_value)) then Inl UnboundLocalError
      else Inr (V_str var_value))"
  by (simp add: set_variable_def)

lemma set_variable_bool_refusal:
  "set_variable T_bool var_value val_range len_range \<noteq> Inl InvalidValue"
  by (simp add: set_variable_def Let_def)

lemma set_variable_bytes_out_of_range:
  "fromhex (lower (remove_char 32 (remove_char 58 var_value))) = Some value \<Longrightarrow>
   violates len_range (int (length value)) \<Longrightarrow>
   set_variable T_bytes var_value val_range len_range = Inl OutOfRange"
  by (simp add: set_variable_def set_bytes_def)

text \<open>
  Claim C3 (typed field assignment enforces its constraints with the declared errors),
  at the inputs the claim names. A \<open>bt_name\<close> of 33 characters against \<open>irange(32)\<close> is
  refused, but by \<open>UnboundLocalError\<close>, not by the \<open>AppotechError\<close> for a value out of
  range; \<open>bt_mac\<close> given \<open>AA:BB:CC:DD:EE:FF\<close> against \<open>irange(6, 6)\<close> stores the six
  bytes; a boolean given \<open>yes\<close> is refused, again by \<open>UnboundLocalError\<close> and not by the
  \<open>AppotechError\<close> for an unsupported token.
\<close>

theorem C3_set_variable_at_claimed_inputs:
  "set_variable T_str (replicate 33 65) None (Some (irange 32)) = Inl UnboundLocalError
   \<and> set_variable T_bytes (str_of ''AA:BB:CC:DD:EE:FF'') None (Some (irange2 6 6))
       = Inr (V_bytes [0xAA, 0xBB, 0xCC, 0xDD, 0xEE, 0xFF])
   \<and> set_variable T_bool (str_of ''yes'') None None = Inl UnboundLocalError"
  by (simp add: set_variable_def set_bytes_def violates_def irange_def irange2_def str_of_def
      remove_char_def lower_def lower_cp_def is_ascii_space_def hexval_def)

section \<open>Properties of the BtInfo codec\<close>

subsection \<open>Decoding what was encoded\<close>

lemma unat_byte: "n < 256 \<Longrightarrow> unat (of_nat n :: byte) = n"
  by (simp add: unat_of_nat)

lemma decode1:
  "n < 0x80 \<Longrightarrow> utf8_decode (of_nat n # rest) = map_option ((#) n) (utf8_decode rest)"
  by (simp add: unat_byte)

lemma decode2:
  "0xC2 \<le> n1 \<Longrightarrow> n1 \<le> 0xDF \<Longrightarrow> 0x80 \<le> n2 \<Longrightarrow> n2 \<le> 0xBF \<Longrightarrow>
   utf8_decode (of_nat n1 # of_nat n2 # rest)
     = map_option ((#) ((n1 - 0xC0) * 64 + (n2 - 0x80))) (utf8_decode rest)"
  by (simp add: unat_byte is_cont_def)

lemma decode3:
  "0xE0 \<le> n1 \<Longrightarrow> n1 \<le> 0xEF \<Longrightarrow> second_lo n1 \<le> n2 \<Longrightarrow> n2 \<le> second_hi n1 \<Longrightarrow>
   0x80 \<le> n3 \<Longrightarrow> n3 \<le> 0xBF \<Longrightarrow>
   utf8_decode (of_nat n1 # of_nat n2 # of_nat n3 # rest)
     = map_option ((#) ((n1 - 0xE0) * 4096 + (n2 - 0x80) * 64 + (n3 - 0x80))) (utf8_decode rest)"
proof -
  assume a: "0xE0 \<le> n1" "n1 \<le> 0xEF" "second_lo n1 \<le> n2" "n2 \<le> second_hi n1"
    "0x80 \<le> n3" "n3 \<le> 0xBF"
  have "n2 \<le> 0xBF" using a(4) by (simp add: second_hi_def split: if_splits)
  then show ?thesis using a by (simp add: unat_byte is_cont_def)
qed

lemma decode4:
  "0xF0 \<le> n1 \<Longrightarrow> n1 \<le> 0xF4 \<Longrightarrow> second_lo n1 \<le> n2 \<Longrightarrow> n2 \<le> second_hi n1 \<Longrightarrow>
   0x80 \<le> n3 \<Longrightarrow> n3 \<le> 0xBF \<Longrightarrow> 0x80 \<le> n4 \<Longrightarrow> n4 \<le> 0xBF \<Longrightarrow>
   utf8_decode (of_nat n1 # of_nat n2 # of_nat n3 # of_nat n4 # rest)
     = map_option ((#) ((n1 - 0xF0) * 262144 + (n2 - 0x80) * 4096 + (n3 - 0x80) * 64 + (n4 - 0x80)))
         (utf8_decode rest)"
proof -
  assume a: "0xF0 \<le> n1" "n1 \<le> 0xF4" "second_lo n1 \<le> n2" "n2 \<le> second_hi n1"
    "0x80 \<le> n3" "n3 \<le> 0xBF" "0x80 \<le> n4" "n4 \<le> 0xBF"
  have "n2 \<le> 0xBF" using a(4) by (simp add: second_hi_def split: if_splits)
  then show ?thesis using a by (simp add: unat_byte is_cont_def)
qed

lemma radix64_2: "(c::nat) div 64 * 64 + c mod 64 = c"
  by simp

lemma radix_combine3: "(x::nat) * 64 + y = z \<Longrightarrow> z * 64 + d = c \<Longrightarrow> x * 4096 + y * 64 + d = c"
  by simp

lemma radix64_3: "(c::nat) div 4096 * 4096 + c div 64 mod 64 * 64 + c mod 64 = c"
proof -
  have "c div 4096 = c div 64 div 64"
    by (simp add: div_mult2_eq [symmetric])
  moreover have "c div 64 div 64 * 64 + c div 64 mod 64 = c div 64"
    by (rule radix64_2)
  moreover have "c div 64 * 64 + c mod 64 = c"
    by (rule radix64_2)
  ultimately show ?thesis
    by (simp only: radix_combine3)
qed

lemma radix_combine4:
  "(w::nat) * 64 + x = v \<Longrightarrow> v * 4096 + y * 64 + d = c \<Longrightarrow> w * 262144 + x * 4096 + y * 64 + d = c"
  by simp

lemma radix64_4:
  "(c::nat) div 262144 * 262144 + c div 4096 mod 64 * 4096 + c div 64 mod 64 * 64 + c mod 64 = c"
proof -
  have "c div 262144 = c div 4096 div 64"
    by (simp add: div_mult2_eq [symmetric])
  moreover have "c div 4096 div 64 * 64 + c div 4096 mod 64 = c div 4096"
    by (rule radix64_2)
  moreover have "c div 4096 * 4096 + c div 64 mod 64 * 64 + c mod 64 = c"
    by (rule radix64_3)
  ultimately show ?thesis
    by (simp only: radix_combine4)
qed

lemma utf8_decode_encode_cp:
  assumes "utf8_encode_cp c = Some bs"
  shows "utf8_decode (bs @ rest) = map_option ((#) c) (utf8_decode rest)"
proof -
  consider "c < 0x80" | "0x80 \<le> c" "c < 0x800" | "0x800 \<le> c" "c < 0x10000"
    | "0x10000 \<le> c" "c < 0x110000" | "0x110000 \<le> c"
    by linarith
  then show ?thesis
  proof cases
    case 1
    with assms have bs: "bs = [of_nat c]" by (simp add: utf8_encode_cp_def)
    show ?thesis unfolding bs using decode1[OF 1] by simp
  next
    case 2
    define a where "a = c div 64"
    define d where "d = c mod 64"
    have r: "a * 64 + d = c" and bd: "d < 64"
      by (simp_all add: a_def d_def)
    have bs: "bs = [of_nat (0xC0 + a), of_nat (0x80 + d)]"
      using assms 2 by (simp add: utf8_encode_cp_def a_def d_def)
    have "utf8_decode (of_nat (0xC0 + a) # of_nat (0x80 + d) # rest)
        = map_option ((#) ((0xC0 + a - 0xC0) * 64 + (0x80 + d - 0x80))) (utf8_decode rest)"
      using 2 r bd by (intro decode2) auto
    then show ?thesis unfolding bs using r by simp
  next
    case 3
    from assms 3 have ns: "c < 0xD800 \<or> 0xDFFF < c"
      by (auto simp: utf8_encode_cp_def split: if_splits)
    define a where "a = c div 4096"
    define b where "b = c div 64 mod 64"
    define d where "d = c mod 64"
    have r: "a * 4096 + b * 64 + d = c"
      unfolding a_def b_def d_def by (rule radix64_3)
    have bd: "b < 64" "d < 64"
      by (simp_all add: b_def d_def)
    have bs: "bs = [of_nat (0xE0 + a), of_nat (0x80 + b), of_nat (0x80 + d)]"
      using assms 3 ns by (auto simp add: utf8_encode_cp_def a_def b_def d_def)
    have "utf8_decode (of_nat (0xE0 + a) # of_nat (0x80 + b) # of_nat (0x80 + d) # rest)
        = map_option ((#) ((0xE0 + a - 0xE0) * 4096 + (0x80 + b - 0x80) * 64 + (0x80 + d - 0x80)))
            (utf8_decode rest)"
      using 3 ns r bd by (intro decode3) (auto simp: second_lo_def second_hi_def)
    then show ?thesis unfolding bs using r by simp
  next
    case 4
    define w where "w = c div 262144"
    define a where "a = c div 4096 mod 64"
    define b where "b = c div 64 mod 64"
    define d where "d = c mod 64"
    have r: "w * 262144 + a * 4096 + b * 64 + d = c"
      unfolding w_def a_def b_def d_def by (rule radix64_4)
    have bd: "a < 64" "b < 64" "d < 64"
      by (simp_all add: a_def b_def d_def)
    have bs: "bs = [of_nat (0xF0 + w), of_nat (0x80 + a), of_nat (0x80 + b), of_nat (0x80 + d)]"
      using assms 4 by (simp add: utf8_encode_cp_def w_def a_def b_def d_def)
    have "utf8_decode (of_nat (0xF0 + w) # of_nat (0x80 + a) # of_nat (0x80 + b) # of_nat (0x80 + d) # rest)
        = map_option ((#) ((0xF0 + w - 0xF0) * 262144 + (0x80 + a - 0x80) * 4096
             + (0x80 + b - 0x80) * 64 + (0x80 + d - 0x80))) (utf8_decode rest)"
      using 4 r bd by (intro decode4) (auto simp: second_lo_def second_hi_def)
    then show ?thesis unfolding bs using r by simp
  next
    case 5
    with assms show ?thesis by (simp add: utf8_encode_cp_def)
  qed
qed

lemma utf8_decode_encode:
  "utf8_encode s = Some bs \<Longrightarrow> utf8_decode bs = Some s"
proof (induction s arbitrary: bs)
  case Nil
  then show ?case by simp
next
  case (Cons c cs)
  then obtain b1 b2 where e: "utf8_encode_cp c = Some b1" "utf8_encode cs = Some b2" "bs = b1 @ b2"
    by (auto split: option.splits)
  show ?case
    using utf8_decode_encode_cp[OF e(1), of b2] Cons.IH[OF e(2)] e(3) by simp
qed

lemma byte_of_nat_nonzero: "0 < n \<Longrightarrow> n < 256 \<Longrightarrow> (of_nat n :: byte) \<noteq> 0"
proof
  assume a: "0 < n" "n < 256" "(of_nat n :: byte) = 0"
  have "unat (of_nat n :: byte) = n" using a(2) by (rule unat_byte)
  with a(3) have "n = 0" by simp
  with a(1) show False by simp
qed

lemma utf8_encode_cp_no_nul:
  assumes "utf8_encode_cp c = Some bs" and "c \<noteq> 0"
  shows "0 \<notin> set bs"
proof -
  have m: "\<And>k. k mod 64 < (64::nat)" by simp
  consider "c < 0x80" | "0x80 \<le> c" "c < 0x800" | "0x800 \<le> c" "c < 0x10000"
    | "0x10000 \<le> c" "c < 0x110000" | "0x110000 \<le> c"
    by linarith
  then show ?thesis
  proof cases
    case 1
    with assms show ?thesis
      by (auto simp: utf8_encode_cp_def dest!: sym [of 0] intro: byte_of_nat_nonzero [THEN notE])
  next
    case 2
    then have "c div 64 < 32" by simp
    with assms 2 m[of c] show ?thesis
      by (auto simp: utf8_encode_cp_def simp del: of_nat_add of_nat_numeral
          dest!: sym [of 0] byte_of_nat_nonzero [THEN notE, rotated 2])
  next
    case 3
    then have "c div 4096 < 16" by simp
    with assms 3 m[of c] m[of "c div 64"] show ?thesis
      by (auto simp: utf8_encode_cp_def simp del: of_nat_add of_nat_numeral split: if_splits
          dest!: sym [of 0] byte_of_nat_nonzero [THEN notE, rotated 2])
  next
    case 4
    then have "c div 262144 < 5" by simp
    with assms 4 m[of c] m[of "c div 64"] m[of "c div 4096"] show ?thesis
      by (auto simp: utf8_encode_cp_def simp del: of_nat_add of_nat_numeral
          dest!: sym [of 0] byte_of_nat_nonzero [THEN notE, rotated 2])
  next
    case 5
    with assms show ?thesis by (simp add: utf8_encode_cp_def)
  qed
qed

lemma utf8_encode_no_nul:
  "utf8_encode s = Some bs \<Longrightarrow> 0 \<notin> set s \<Longrightarrow> 0 \<notin> set bs"
proof (induction s arbitrary: bs)
  case Nil
  then show ?case by simp
next
  case (Cons c cs)
  then obtain b1 b2 where e: "utf8_encode_cp c = Some b1" "utf8_encode cs = Some b2" "bs = b1 @ b2"
    by (auto split: option.splits)
  from Cons.prems(2) have "c \<noteq> 0" "0 \<notin> set cs" by auto
  with utf8_encode_cp_no_nul[OF e(1)] Cons.IH[OF e(2)] e(3) show ?case by simp
qed

subsection \<open>Packing and the layout of the record\<close>

lemma length_pack_s: "length (pack_s n bs) = n"
  by (simp add: pack_s_def)

lemma until_nul_pack_s:
  assumes "0 \<notin> set bs" and "length bs \<le> n"
  shows "until_nul (pack_s n bs) = bs"
proof -
  have "takeWhile (\<lambda>b. b \<noteq> 0) (bs @ replicate (n - length bs) (0::byte))
          = bs @ takeWhile (\<lambda>b. b \<noteq> 0) (replicate (n - length bs) (0::byte))"
    by (rule takeWhile_append2) (use assms(1) in auto)
  moreover have "takeWhile (\<lambda>b. b \<noteq> 0) (replicate (n - length bs) (0::byte)) = []"
    by (cases "n - length bs") simp_all
  ultimately show ?thesis
    using assms(2) by (simp add: until_nul_def pack_s_def)
qed

lemma uint_byte_of_int: "ubyte_ok v \<Longrightarrow> uint (word_of_int v :: byte) = v"
  by (simp add: ubyte_ok_def uint_word_of_int)

lemma bytes_sum_append: "bytes_sum (xs @ ys) = bytes_sum xs + bytes_sum ys"
  by (simp add: bytes_sum_def)

lemma bytes_sum_bounds: "0 \<le> bytes_sum xs \<and> bytes_sum xs \<le> 255 * int (length xs)"
proof (induction xs)
  case Nil
  then show ?case by (simp add: bytes_sum_def)
next
  case (Cons x xs)
  have "uint x < 256" using uint_bounded[of x] by simp
  moreover have "0 \<le> uint x" by simp
  ultimately show ?case using Cons by (simp add: bytes_sum_def)
qed

lemma unpack_pack_H:
  "0 \<le> v \<Longrightarrow> v < 65536 \<Longrightarrow> \<exists>lo hi. pack_H v = Inr [lo, hi] \<and> unpack_H [lo, hi] = v"
proof -
  assume a: "0 \<le> v" "v < 65536"
  have "v div 256 < 256" using a by simp
  moreover have "0 \<le> v div 256" using a by simp
  ultimately have hi: "uint (word_of_int (v div 256) :: byte) = v div 256"
    by (simp add: uint_word_of_int)
  have lo: "uint (word_of_int (v mod 256) :: byte) = v mod 256"
    by (simp add: uint_word_of_int)
  show ?thesis using a by (simp add: pack_H_def unpack_H_def lo hi)
qed

lemma BtInfo_load_layout:
  assumes nm: "length nm = 32" and mc: "length mc = 6"
    and pre_def: "pre = BtInfo_MAGIC @ [p] @ [f1, f2, f3, f4] @ replicate 4 z @ nm @ mc @ replicate 10 z'"
  shows "BtInfo_load (pre @ [lo, hi])
     = (case utf8_decode (until_nul nm) of
          None \<Rightarrow> Inl InvalidEncoding
        | Some name \<Rightarrow>
            Inr (\<lparr>flags = uint f1, mic_unmute_thresh = uint f2, mic_mute_thresh = uint f3,
                   mic_mute_duration = uint f4, BtInfo.bt_name = name, BtInfo.bt_mac = rev mc,
                   checksum = unpack_H [lo, hi]\<rparr>,
                 if bytes_sum pre \<noteq> unpack_H [lo, hi]
                 then [ChecksumWarning (bytes_sum pre) (unpack_H [lo, hi])]
                 else []))"
proof -
  define body where "body = [p] @ [f1, f2, f3, f4] @ replicate 4 z @ nm @ mc @ replicate 10 z' @ [lo, hi]"
  have len: "length pre = 62"
    by (simp add: pre_def BtInfo_MAGIC_def nm mc)
  have sz: "BtInfo_SIZE = 64"
    by (simp add: BtInfo_SIZE_def BtInfo_MAGIC_def BtInfo_FMT_size_def)
  have magic: "startswith (pre @ [lo, hi]) BtInfo_MAGIC"
    by (simp add: startswith_def pre_def)
  have body: "slice_of (pre @ [lo, hi]) (length BtInfo_MAGIC) BtInfo_SIZE = body"
    by (simp add: sz slice_of_def pre_def body_def BtInfo_MAGIC_def nm mc)
  have fields: "body ! 1 = f1" "body ! 2 = f2" "body ! 3 = f3" "body ! 4 = f4"
    by (simp_all add: body_def)
  have name: "slice_of body 9 41 = nm"
    by (simp add: slice_of_def body_def nm)
  have mac: "slice_of body 41 47 = mc"
    by (simp add: slice_of_def body_def nm mc)
  have cs: "slice_of body 57 59 = [lo, hi]"
    by (simp add: slice_of_def body_def nm mc)
  have summed: "take (BtInfo_SIZE - 2) (pre @ [lo, hi]) = pre"
    by (simp add: sz len)
  show ?thesis
    unfolding BtInfo_load_def body Let_def fields name mac cs summed
    using magic by (simp add: sz len)
qed

lemma BtInfo_bytes_valid:
  assumes name: "utf8_encode (BtInfo.bt_name r) = Some name"
    and nums: "ubyte_ok (flags r)" "ubyte_ok (mic_unmute_thresh r)" "ubyte_ok (mic_mute_thresh r)"
      "ubyte_ok (mic_mute_duration r)"
    and pre_def: "pre = BtInfo_MAGIC @ [0]
           @ [word_of_int (flags r), word_of_int (mic_unmute_thresh r),
              word_of_int (mic_mute_thresh r), word_of_int (mic_mute_duration r)]
           @ replicate 4 0 @ pack_s 32 name @ pack_s 6 (rev (BtInfo.bt_mac r)) @ replicate 10 0"
  shows "\<exists>lo hi. BtInfo_bytes r = Inr (pre @ [lo, hi]) \<and> unpack_H [lo, hi] = bytes_sum pre
           \<and> bytes_sum pre \<le> 62 * 255"
proof -
  have len: "length pre = 62"
    by (simp add: pre_def BtInfo_MAGIC_def length_pack_s)
  have b: "0 \<le> bytes_sum pre" "bytes_sum pre \<le> 62 * 255"
    using bytes_sum_bounds[of pre] by (simp_all add: len)
  then have "bytes_sum pre < 65536" by simp
  with b(1) obtain lo hi where p: "pack_H (bytes_sum pre) = Inr [lo, hi]"
      "unpack_H [lo, hi] = bytes_sum pre"
    using unpack_pack_H by blast
  have "BtInfo_bytes r = (case pack_H (bytes_sum pre) of Inl e \<Rightarrow> Inl e | Inr cs \<Rightarrow> Inr (pre @ cs))"
    unfolding BtInfo_bytes_def pre_def Let_def using name nums by simp
  then have "BtInfo_bytes r = Inr (pre @ [lo, hi])"
    by (simp add: p(1))
  with p(2) b(2) show ?thesis by blast
qed

text \<open>
  Claim C6 (BtInfo round trip). For a record whose name encodes to at most 32 bytes of
  UTF-8 and holds no NUL, whose MAC has exactly 6 bytes and whose four numbers are in
  0..255, \<open>__bytes__\<close> succeeds, and \<open>load\<close> of its result gives every field back, logs
  nothing, and reads as checksum the sum of \<open>encode(r)[:-2]\<close> modulo 65536. The MAC is
  reversed once by each direction, so it comes back as it was.
\<close>

theorem C6_BtInfo_roundtrip:
  assumes "utf8_encode (BtInfo.bt_name r) = Some name" and "length name \<le> 32" and "0 \<notin> set (BtInfo.bt_name r)"
    and "length (BtInfo.bt_mac r) = 6"
    and "ubyte_ok (flags r)" and "ubyte_ok (mic_unmute_thresh r)" and "ubyte_ok (mic_mute_thresh r)"
    and "ubyte_ok (mic_mute_duration r)"
  shows "\<exists>enc. BtInfo_bytes r = Inr enc
           \<and> BtInfo_load enc = Inr (r\<lparr>checksum := bytes_sum (slice_to enc (- 2)) mod 65536\<rparr>, [])"
proof -
  define pre where "pre = BtInfo_MAGIC @ [0]
           @ [word_of_int (flags r), word_of_int (mic_unmute_thresh r),
              word_of_int (mic_mute_thresh r), word_of_int (mic_mute_duration r)]
           @ replicate 4 0 @ pack_s 32 name @ pack_s 6 (rev (BtInfo.bt_mac r)) @ replicate 10 0"
  obtain lo hi where enc: "BtInfo_bytes r = Inr (pre @ [lo, hi])"
      and cs: "unpack_H [lo, hi] = bytes_sum pre" and bound: "bytes_sum pre \<le> 62 * 255"
    using BtInfo_bytes_valid[OF assms(1) assms(5-8) pre_def] by blast
  have len: "length pre = 62"
    by (simp add: pre_def BtInfo_MAGIC_def length_pack_s)
  have nonneg: "0 \<le> bytes_sum pre"
    using bytes_sum_bounds[of pre] by simp
  have nm: "utf8_decode (until_nul (pack_s 32 name)) = Some (BtInfo.bt_name r)"
    using until_nul_pack_s[OF utf8_encode_no_nul[OF assms(1) assms(3)] assms(2)]
      utf8_decode_encode[OF assms(1)] by simp
  have mac: "rev (pack_s 6 (rev (BtInfo.bt_mac r))) = BtInfo.bt_mac r"
    using assms(4) by (simp add: pack_s_def)
  have prefix: "slice_to (pre @ [lo, hi]) (- 2) = pre"
    by (simp add: slice_to_def len)
  have "BtInfo_load (pre @ [lo, hi])
      = Inr (\<lparr>flags = flags r, mic_unmute_thresh = mic_unmute_thresh r,
               mic_mute_thresh = mic_mute_thresh r, mic_mute_duration = mic_mute_duration r,
               BtInfo.bt_name = BtInfo.bt_name r, BtInfo.bt_mac = BtInfo.bt_mac r, checksum = bytes_sum pre\<rparr>, [])"
    using BtInfo_load_layout[OF length_pack_s length_pack_s pre_def, of lo hi]
    by (simp add: nm mac cs uint_byte_of_int assms(5-8))
  moreover have "bytes_sum pre mod 65536 = bytes_sum pre"
    using nonneg bound by simp
  ultimately have "BtInfo_load (pre @ [lo, hi])
      = Inr (r\<lparr>checksum := bytes_sum (slice_to (pre @ [lo, hi]) (- 2)) mod 65536\<rparr>, [])"
    by (simp add: prefix)
  with enc show ?thesis by blast
qed

text \<open>
  A record with a three-character name of one, two and three bytes in UTF-8.
\<close>

theorem C6_BtInfo_roundtrip_witness:
  "utf8_encode (BtInfo.bt_name \<lparr>flags = 3, mic_unmute_thresh = 10, mic_mute_thresh = 20,
        mic_mute_duration = 255, BtInfo.bt_name = [0x41, 0xE9, 0x20AC], BtInfo.bt_mac = [1, 2, 3, 4, 5, 6],
        checksum = 0\<rparr>) = Some [0x41, 0xC3, 0xA9, 0xE2, 0x82, 0xAC]
   \<and> (\<exists>enc. BtInfo_bytes \<lparr>flags = 3, mic_unmute_thresh = 10, mic_mute_thresh = 20,
        mic_mute_duration = 255, BtInfo.bt_name = [0x41, 0xE9, 0x20AC], BtInfo.bt_mac = [1, 2, 3, 4, 5, 6],
        checksum = 0\<rparr> = Inr enc
      \<and> BtInfo_load enc = Inr (\<lparr>flags = 3, mic_unmute_thresh = 10, mic_mute_thresh = 20,
        mic_mute_duration = 255, BtInfo.bt_name = [0x41, 0xE9, 0x20AC], BtInfo.bt_mac = [1, 2, 3, 4, 5, 6],
        checksum = bytes_sum (slice_to enc (- 2)) mod 65536\<rparr>, []))"
proof -
  let ?r = "\<lparr>flags = 3, mic_unmute_thresh = 10, mic_mute_thresh = 20,
        mic_mute_duration = 255, BtInfo.bt_name = [0x41, 0xE9, 0x20AC], BtInfo.bt_mac = [1, 2, 3, 4, 5, 6],
        checksum = 0\<rparr>"
  have name: "utf8_encode (BtInfo.bt_name ?r) = Some [0x41, 0xC3, 0xA9, 0xE2, 0x82, 0xAC]"
    by (simp add: utf8_encode_cp_def)
  have len: "length [0x41, 0xC3, 0xA9, 0xE2, 0x82, 0xAC :: byte] \<le> 32"
    by simp
  have nul: "0 \<notin> set (BtInfo.bt_name ?r)"
    by simp
  have mac: "length (BtInfo.bt_mac ?r) = 6"
    by simp
  have nums: "ubyte_ok (flags ?r)" "ubyte_ok (mic_unmute_thresh ?r)"
      "ubyte_ok (mic_mute_thresh ?r)" "ubyte_ok (mic_mute_duration ?r)"
    by (simp_all add: ubyte_ok_def)
  show ?thesis
    using C6_BtInfo_roundtrip[OF name len nul mac nums] name by simp
qed

text \<open>
  Claim C10, amended (BtInfo encode is total and fixed-size). For a record whose numbers
  are in 0..255 and whose name can be encoded, \<open>__bytes__\<close> succeeds and returns exactly
  \<open>SIZE\<close> bytes, which is 64 and not 62: the name fills the 32 bytes from offset 14, the MAC
  the 6 bytes from offset 46, and the checksum is the sum of the 62 bytes before it, at
  most \<open>62 * 255 = 15810\<close>, so packing it as an unsigned 16-bit value succeeds; it is the
  last two bytes.
\<close>

theorem C10_BtInfo_bytes_total:
  assumes "utf8_encode (BtInfo.bt_name r) = Some name"
    and "ubyte_ok (flags r)" and "ubyte_ok (mic_unmute_thresh r)" and "ubyte_ok (mic_mute_thresh r)"
    and "ubyte_ok (mic_mute_duration r)"
  shows "\<exists>enc. BtInfo_bytes r = Inr enc \<and> length enc = BtInfo_SIZE \<and> BtInfo_SIZE = 64
           \<and> slice_of enc 14 46 = pack_s 32 name \<and> length (pack_s 32 name) = 32
           \<and> slice_of enc 46 52 = pack_s 6 (rev (BtInfo.bt_mac r)) \<and> length (pack_s 6 (rev (BtInfo.bt_mac r))) = 6
           \<and> bytes_sum (slice_to enc (- 2)) \<le> 62 * 255
           \<and> pack_H (bytes_sum (slice_to enc (- 2))) = Inr (slice_from enc (- 2))"
proof -
  define pre where "pre = BtInfo_MAGIC @ [0]
           @ [word_of_int (flags r), word_of_int (mic_unmute_thresh r),
              word_of_int (mic_mute_thresh r), word_of_int (mic_mute_duration r)]
           @ replicate 4 0 @ pack_s 32 name @ pack_s 6 (rev (BtInfo.bt_mac r)) @ replicate 10 0"
  have len: "length pre = 62"
    by (simp add: pre_def BtInfo_MAGIC_def length_pack_s)
  have b: "0 \<le> bytes_sum pre" "bytes_sum pre \<le> 62 * 255"
    using bytes_sum_bounds[of pre] by (simp_all add: len)
  obtain cs where p: "pack_H (bytes_sum pre) = Inr cs" "length cs = 2"
    using b by (auto simp: pack_H_def)
  have "BtInfo_bytes r = (case pack_H (bytes_sum pre) of Inl e \<Rightarrow> Inl e | Inr cs \<Rightarrow> Inr (pre @ cs))"
    unfolding BtInfo_bytes_def pre_def Let_def using assms by simp
  then have enc: "BtInfo_bytes r = Inr (pre @ cs)"
    by (simp add: p(1))
  have sz: "BtInfo_SIZE = 64"
    by (simp add: BtInfo_SIZE_def BtInfo_MAGIC_def BtInfo_FMT_size_def)
  have nm: "slice_of (pre @ cs) 14 46 = pack_s 32 name"
    by (simp add: slice_of_def pre_def BtInfo_MAGIC_def length_pack_s)
  have mc: "slice_of (pre @ cs) 46 52 = pack_s 6 (rev (BtInfo.bt_mac r))"
    by (simp add: slice_of_def pre_def BtInfo_MAGIC_def length_pack_s)
  have front: "slice_to (pre @ cs) (- 2) = pre"
    by (simp add: slice_to_def len p(2))
  have rear: "slice_from (pre @ cs) (- 2) = cs"
    by (simp add: slice_from_def len p(2))
  show ?thesis
    using enc sz nm mc b(2) p by (simp add: front rear len length_pack_s)
qed

text \<open>The record that \<open>BtInfo()\<close> constructs.\<close>

theorem C10_BtInfo_bytes_total_witness:
  "utf8_encode (BtInfo.bt_name BtInfo_new) = Some []
   \<and> ubyte_ok (flags BtInfo_new) \<and> ubyte_ok (mic_unmute_thresh BtInfo_new)
   \<and> ubyte_ok (mic_mute_thresh BtInfo_new) \<and> ubyte_ok (mic_mute_duration BtInfo_new)
   \<and> (\<exists>enc. BtInfo_bytes BtInfo_new = Inr enc \<and> length enc = 64
        \<and> slice_of enc 14 46 = replicate 32 0 \<and> slice_of enc 46 52 = replicate 6 0
        \<and> bytes_sum (slice_to enc (- 2)) \<le> 62 * 255
        \<and> pack_H (bytes_sum (slice_to enc (- 2))) = Inr (slice_from enc (- 2)))"
proof -
  have name: "utf8_encode (BtInfo.bt_name BtInfo_new) = Some []"
    by (simp add: BtInfo_new_def)
  have nums: "ubyte_ok (flags BtInfo_new)" "ubyte_ok (mic_unmute_thresh BtInfo_new)"
      "ubyte_ok (mic_mute_thresh BtInfo_new)" "ubyte_ok (mic_mute_duration BtInfo_new)"
    by (simp_all add: ubyte_ok_def BtInfo_new_def)
  have "pack_s 32 [] = replicate 32 (0::byte)" and "pack_s 6 (rev (BtInfo.bt_mac BtInfo_new)) = replicate 6 0"
    by (simp_all add: pack_s_def BtInfo_new_def)
  then show ?thesis
    using C10_BtInfo_bytes_total[OF name nums] name nums by auto
qed

text \<open>Unfolding \<open>replicate\<close> at a numeral, for evaluating concrete inputs.\<close>

lemma replicate_numeral: "replicate (numeral k) x = x # replicate (pred_numeral k) x"
  by (simp add: numeral_eq_Suc)

text \<open>
  Claim C10 as stated fails at the default record: its encoding has 64 bytes, the 5 of
  the magic, 57 zero bytes and the checksum \<open>0x0173\<close> of 62 summed bytes, where the claim
  says 62 bytes and a sum over 60.
\<close>

theorem C10_BtInfo_SIZE_is_64:
  "BtInfo_bytes BtInfo_new = Inr (BtInfo_MAGIC @ replicate 57 0 @ [0x73, 0x01])
   \<and> length (BtInfo_MAGIC @ replicate 57 0 @ [0x73, 0x01 :: byte]) = 64
   \<and> BtInfo_SIZE = 64"
  by (simp add: BtInfo_bytes_def BtInfo_new_def BtInfo_MAGIC_def ubyte_ok_def pack_s_def
      bytes_sum_def pack_H_def BtInfo_SIZE_def BtInfo_FMT_size_def Let_def replicate_numeral)

text \<open>
  The numbers alone do not make \<open>__bytes__\<close> succeed: a name that holds a lone surrogate
  (what a byte that is no UTF-8 becomes in \<open>sys.argv\<close>) cannot be encoded.
\<close>

lemma BtInfo_bytes_surrogate:
  "BtInfo_bytes (BtInfo_new\<lparr>BtInfo.bt_name := [0xDCFF]\<rparr>) = Inl UnicodeEncodeError"
  by (simp add: BtInfo_bytes_def utf8_encode_cp_def)

section \<open>Properties of the insertion of pairing entries\<close>

text \<open>
  The digits that \<open>int\<close> reads: the ASCII digits have their usual values, and a digit of
  another script is read as well, here ARABIC-INDIC DIGIT THREE.
\<close>

lemma digit_value_ascii:
  "48 \<le> c \<Longrightarrow> c \<le> 57 \<Longrightarrow> digit_value c = Some (c - 48)"
  by (simp add: digit_value_def decimal_zeros_def)

lemma digit_value_arabic_indic_three:
  "digit_value 0x663 = Some 3"
  by (simp add: digit_value_def decimal_zeros_def)

lemma py_int_arabic_indic_three:
  "py_int [0x663] = Some 3"
  by (simp add: py_int_def strip_def is_space_def unsigned_int_def is_digit_def
      digit_value_arabic_indic_three MAX_STR_DIGITS_def)




text \<open>
  The spec's example, the indices \<open>0 0\<close> on one entry: sorting leaves them as they are,
  and both new entries end up before the old one.
\<close>

lemma add_entries_twice_at_front:
  "add_entries [str_of ''0'', str_of ''0''] [a] = Inr [Entry_new, Entry_new, a]"
  by (simp add: add_entries_def indices_atoi_list_def py_int_def str_of_def strip_def
      is_space_def unsigned_int_def is_digit_def digit_value_ascii MAX_STR_DIGITS_def
      list_insert_def)




section \<open>Properties of the BtPairing decoder\<close>

subsection \<open>The loop over the entries\<close>

lemma last_slice:
  "off + Entry_SIZE \<le> length data \<Longrightarrow>
   last (slice_of data off (off + Entry_SIZE)) = data ! (off + (Entry_SIZE - 1))"
  by (simp add: slice_of_def last_conv_nth Entry_SIZE_def)

lemma read_entries_stop:
  "length data < off + Entry_SIZE \<or> data ! (off + (Entry_SIZE - 1)) \<noteq> 1 \<Longrightarrow>
   read_entries data off acc = Inr (acc, off)"
proof (cases "length data < off + Entry_SIZE")
  case True
  then have "length data - off < Entry_SIZE" by (simp add: Entry_SIZE_def)
  then show ?thesis by (subst read_entries.simps) simp
next
  case False
  assume "length data < off + Entry_SIZE \<or> data ! (off + (Entry_SIZE - 1)) \<noteq> 1"
  with False have "last (slice_of data off (off + Entry_SIZE)) \<noteq> 1"
    by (simp add: last_slice)
  then show ?thesis by (subst read_entries.simps) (simp add: Let_def)
qed

lemma read_entries_step:
  "off + Entry_SIZE \<le> length data \<Longrightarrow> data ! (off + (Entry_SIZE - 1)) = 1 \<Longrightarrow>
   read_entries data off acc =
     (case Entry_load (slice_of data off (off + Entry_SIZE)) of
        Inl e \<Rightarrow> Inl e
      | Inr entry \<Rightarrow> read_entries data (off + Entry_SIZE) (acc @ [entry]))"
  by (subst read_entries.simps) (auto simp: last_slice Let_def)

lemma read_entries_run:
  assumes "\<And>k. k < n \<Longrightarrow> off + (k + 1) * Entry_SIZE \<le> length data
              \<and> data ! (off + k * Entry_SIZE + (Entry_SIZE - 1)) = 1"
    and "length data < off + (n + 1) * Entry_SIZE
           \<or> data ! (off + n * Entry_SIZE + (Entry_SIZE - 1)) \<noteq> 1"
  shows "read_entries data off acc =
     (case load_first data off n of
        Inl e \<Rightarrow> Inl e
      | Inr es \<Rightarrow> Inr (acc @ es, off + n * Entry_SIZE))"
  using assms
proof (induction n arbitrary: off acc)
  case 0
  then show ?case by (simp add: read_entries_stop)
next
  case (Suc n)
  from Suc.prems(1)[of 0] have first: "off + Entry_SIZE \<le> length data"
      "data ! (off + (Entry_SIZE - 1)) = 1"
    by simp_all
  have rest: "read_entries data (off + Entry_SIZE) acc' =
     (case load_first data (off + Entry_SIZE) n of
        Inl e \<Rightarrow> Inl e
      | Inr es \<Rightarrow> Inr (acc' @ es, off + Entry_SIZE + n * Entry_SIZE))" for acc'
  proof (rule Suc.IH)
    fix k assume "k < n"
    then have "Suc k < Suc n" by simp
    from Suc.prems(1)[OF this]
    show "off + Entry_SIZE + (k + 1) * Entry_SIZE \<le> length data
              \<and> data ! (off + Entry_SIZE + k * Entry_SIZE + (Entry_SIZE - 1)) = 1"
      by (simp add: add.assoc add.left_commute)
  next
    from Suc.prems(2) show "length data < off + Entry_SIZE + (n + 1) * Entry_SIZE
        \<or> data ! (off + Entry_SIZE + n * Entry_SIZE + (Entry_SIZE - 1)) \<noteq> 1"
      by (simp add: add.assoc add.left_commute)
  qed
  show ?case
    using read_entries_step[OF first, of acc]
    by (simp add: rest split: sum.splits)
qed

lemma length_load_first: "load_first data off n = Inr es \<Longrightarrow> length es = n"
  by (induction n arbitrary: off es) (auto split: sum.splits)

lemma Entry_load_error:
  "length chunk = Entry_SIZE \<Longrightarrow> Entry_load chunk = Inl e \<Longrightarrow> e = InvalidEncoding"
  by (auto simp: Entry_load_def split: if_splits option.splits)

lemma load_first_error:
  "off + n * Entry_SIZE \<le> length data \<Longrightarrow> load_first data off n = Inl e \<Longrightarrow> e = InvalidEncoding"
proof (induction n arbitrary: off)
  case 0
  then show ?case by simp
next
  case (Suc n)
  have len: "length (slice_of data off (off + Entry_SIZE)) = Entry_SIZE"
    using Suc.prems(1) by (simp add: slice_of_def)
  from Suc.prems(1) have fits: "off + Entry_SIZE + n * Entry_SIZE \<le> length data"
    by simp
  from Suc.prems(2) show ?case
    using Entry_load_error[OF len] Suc.IH[OF fits]
    by (auto split: sum.splits)
qed

text \<open>
  Claim C7, amended (BtPairing decode: termination and errors). For a stream with the
  header magic and at least header + one entry + 1 bytes, let \<open>n\<close> be the number of
  accepted entries: entries \<open>0\<close> to \<open>n - 1\<close> are complete with \<open>is_valid\<close> byte 1, and
  entry \<open>n\<close> is incomplete or has another \<open>is_valid\<close> byte. The loop loads exactly these
  \<open>n\<close> entries and discards entry \<open>n\<close>. Decode fails with the entry's error, which is
  \<open>InvalidEncoding\<close>, when one of them does not load; otherwise it fails with \<open>Empty\<close>
  when \<open>n = 0\<close>, with \<open>Truncated\<close> when no byte follows the \<open>n\<close> entries, and else
  returns the \<open>n\<close> entries with the next byte as \<open>paired_idx\<close>.
\<close>

theorem C7_BtPairing_load_outcomes:
  assumes "startswith data BtPairing_MAGIC" and "BtPairing_HDR_SIZE + Entry_SIZE + 1 \<le> length data"
    and "\<forall>k<n. accepted_at data k" and "\<not> accepted_at data n"
  shows "BtPairing_load data =
     (case load_first data BtPairing_HDR_SIZE n of
        Inl e \<Rightarrow> Inl InvalidEncoding
      | Inr es \<Rightarrow>
          if n = 0 then Inl Empty
          else if length data = BtPairing_HDR_SIZE + n * Entry_SIZE then Inl (Truncated 1 0)
          else Inr \<lparr>entries = es, paired_idx = uint (data ! (BtPairing_HDR_SIZE + n * Entry_SIZE))\<rparr>)"
proof -
  have run: "read_entries data BtPairing_HDR_SIZE [] =
     (case load_first data BtPairing_HDR_SIZE n of
        Inl e \<Rightarrow> Inl e
      | Inr es \<Rightarrow> Inr ([] @ es, BtPairing_HDR_SIZE + n * Entry_SIZE))"
    using assms(3,4) by (intro read_entries_run) (auto simp: accepted_at_def)
  have fits: "BtPairing_HDR_SIZE + n * Entry_SIZE \<le> length data"
  proof (cases n)
    case 0
    with assms(2) show ?thesis by simp
  next
    case (Suc m)
    with assms(3) have "accepted_at data m" by simp
    then show ?thesis by (simp add: accepted_at_def Suc)
  qed
  show ?thesis
  proof (cases "load_first data BtPairing_HDR_SIZE n")
    case (Inl e)
    with load_first_error[OF fits] have "e = InvalidEncoding" by simp
    with Inl run assms(1,2) show ?thesis by (simp add: BtPairing_load_def)
  next
    case (Inr es)
    then have "length es = n" by (rule length_load_first)
    then have "es = [] \<longleftrightarrow> n = 0" by auto
    with Inr run assms(1,2) fits show ?thesis
      by (auto simp: BtPairing_load_def)
  qed
qed

text \<open>
  Every stream has its number of accepted entries: the first index that is not accepted.
\<close>

lemma accepted_prefix_exists:
  "\<exists>n. (\<forall>k<n. accepted_at data k) \<and> \<not> accepted_at data n"
proof -
  have "\<not> accepted_at data (length data)"
    by (simp add: accepted_at_def Entry_SIZE_def)
  then have "\<not> accepted_at data (LEAST k. \<not> accepted_at data k)"
    by (rule LeastI)
  moreover have "\<forall>k<(LEAST k. \<not> accepted_at data k). accepted_at data k"
    using not_less_Least by blast
  ultimately show ?thesis by blast
qed

text \<open>The spec's example: a first entry whose \<open>is_valid\<close> byte is not 1 gives \<open>Empty\<close>.\<close>

lemma BtPairing_load_first_invalid:
  assumes "startswith data BtPairing_MAGIC" and "BtPairing_HDR_SIZE + Entry_SIZE + 1 \<le> length data"
    and "data ! (BtPairing_HDR_SIZE + (Entry_SIZE - 1)) \<noteq> 1"
  shows "BtPairing_load data = Inl Empty"
  using assms by (simp add: BtPairing_load_def read_entries_stop)

text \<open>A stream of one valid entry named \<open>A\<close>, followed by the index byte 7.\<close>

theorem C7_BtPairing_load_outcomes_witness:
  "startswith (BtPairing_MAGIC @ replicate 16 0xAA @ [1, 2, 3, 4, 5, 6] @ [0x41] @ replicate 31 0
        @ [1] @ [7]) BtPairing_MAGIC
   \<and> accepted_at (BtPairing_MAGIC @ replicate 16 0xAA @ [1, 2, 3, 4, 5, 6] @ [0x41]
        @ replicate 31 0 @ [1] @ [7]) 0
   \<and> \<not> accepted_at (BtPairing_MAGIC @ replicate 16 0xAA @ [1, 2, 3, 4, 5, 6] @ [0x41]
        @ replicate 31 0 @ [1] @ [7]) 1
   \<and> BtPairing_load (BtPairing_MAGIC @ replicate 16 0xAA @ [1, 2, 3, 4, 5, 6] @ [0x41]
        @ replicate 31 0 @ [1] @ [7])
     = Inr \<lparr>entries = [\<lparr>link_key = replicate 16 0xAA, bt_mac = [6, 5, 4, 3, 2, 1],
                          bt_name = [0x41], is_valid = True\<rparr>],
            paired_idx = 7\<rparr>"
proof -
  let ?d = "BtPairing_MAGIC @ replicate 16 0xAA @ [1, 2, 3, 4, 5, 6] @ [0x41] @ replicate 31 0
        @ [1] @ [7]"
  have magic: "startswith ?d BtPairing_MAGIC"
    by (simp add: startswith_def)
  have len: "BtPairing_HDR_SIZE + Entry_SIZE + 1 \<le> length ?d"
    by (simp add: BtPairing_HDR_SIZE_def Entry_SIZE_def BtPairing_MAGIC_def)
  have a0: "accepted_at ?d 0"
    by (simp add: accepted_at_def BtPairing_HDR_SIZE_def Entry_SIZE_def BtPairing_MAGIC_def nth_append)
  then have acc: "\<forall>k<1. accepted_at ?d k"
    by simp
  have stop: "\<not> accepted_at ?d 1"
    by (simp add: accepted_at_def BtPairing_HDR_SIZE_def Entry_SIZE_def BtPairing_MAGIC_def)
  have entry: "Entry_load (slice_of ?d BtPairing_HDR_SIZE (BtPairing_HDR_SIZE + Entry_SIZE))
      = Inr \<lparr>link_key = replicate 16 0xAA, bt_mac = [6, 5, 4, 3, 2, 1],
              bt_name = [0x41], is_valid = True\<rparr>"
    by (simp add: Entry_load_def slice_of_def BtPairing_HDR_SIZE_def Entry_SIZE_def BtPairing_MAGIC_def
        until_nul_def nth_append)
  have first: "load_first ?d BtPairing_HDR_SIZE 1
      = Inr [\<lparr>link_key = replicate 16 0xAA, bt_mac = [6, 5, 4, 3, 2, 1],
               bt_name = [0x41], is_valid = True\<rparr>]"
    using entry by simp
  have idx: "uint (?d ! (BtPairing_HDR_SIZE + 1 * Entry_SIZE)) = 7" "length ?d \<noteq> BtPairing_HDR_SIZE + 1 * Entry_SIZE"
    by (simp_all add: BtPairing_HDR_SIZE_def Entry_SIZE_def BtPairing_MAGIC_def nth_append)
  show ?thesis
    using C7_BtPairing_load_outcomes[OF magic len acc stop] magic a0 stop first idx
    by simp
qed

text \<open>
  Claim C7 as stated fails on a stream of 72 bytes with the magic whose only entry has
  \<open>is_valid\<close> byte 1 and a name that starts with the byte \<open>0xFF\<close>: one entry is accepted and
  one byte follows it, so the claim has \<open>paired_idx\<close> read, but decode fails with the
  entry's \<open>InvalidEncoding\<close>.
\<close>

theorem C7_accepted_entry_with_bad_name:
  "startswith (BtPairing_MAGIC @ replicate 22 0 @ [0xFF] @ replicate 31 0 @ [1] @ [0])
       BtPairing_MAGIC
   \<and> BtPairing_HDR_SIZE + Entry_SIZE + 1
       = length (BtPairing_MAGIC @ replicate 22 0 @ [0xFF] @ replicate 31 0 @ [1] @ [0 :: byte])
   \<and> (BtPairing_MAGIC @ replicate 22 0 @ [0xFF] @ replicate 31 0 @ [1] @ [0 :: byte])
       ! (BtPairing_HDR_SIZE + (Entry_SIZE - 1)) = 1
   \<and> BtPairing_load (BtPairing_MAGIC @ replicate 22 0 @ [0xFF] @ replicate 31 0 @ [1] @ [0])
       = Inl InvalidEncoding"
proof -
  let ?d = "BtPairing_MAGIC @ replicate 22 0 @ [0xFF] @ replicate 31 0 @ [1] @ [0 :: byte]"
  have magic: "startswith ?d BtPairing_MAGIC"
    by (simp add: startswith_def)
  have len: "BtPairing_HDR_SIZE + Entry_SIZE + 1 = length ?d"
    by (simp add: BtPairing_HDR_SIZE_def Entry_SIZE_def BtPairing_MAGIC_def)
  have valid: "?d ! (BtPairing_HDR_SIZE + (Entry_SIZE - 1)) = 1"
    by (simp add: BtPairing_HDR_SIZE_def Entry_SIZE_def BtPairing_MAGIC_def nth_append)
  have entry: "Entry_load (slice_of ?d BtPairing_HDR_SIZE (BtPairing_HDR_SIZE + Entry_SIZE)) = Inl InvalidEncoding"
    by (simp add: Entry_load_def slice_of_def BtPairing_HDR_SIZE_def Entry_SIZE_def BtPairing_MAGIC_def
        until_nul_def nth_append)
  have fits: "BtPairing_HDR_SIZE + Entry_SIZE \<le> length ?d"
    using len by simp
  have "read_entries ?d BtPairing_HDR_SIZE [] = Inl InvalidEncoding"
    using read_entries_step[OF fits valid, of "[]"] entry by simp
  then have "BtPairing_load ?d = Inl InvalidEncoding"
    using magic len by (simp add: BtPairing_load_def)
  with magic len valid show ?thesis by simp
qed

section \<open>Properties of the SFX locator\<close>

subsection \<open>The loops as filters\<close>

lemma py_find_filter:
  "py_find w what i =
     (case filter (occurs w what) [i ..< Suc (length w) - length what] of
        [] \<Rightarrow> None
      | p # _ \<Rightarrow> Some p)"
proof (induction w what i rule: py_find.induct)
  case (1 w what i)
  show ?case
  proof (cases "length w < i + length what")
    case True
    then have "[i ..< Suc (length w) - length what] = []" by simp
    with True show ?thesis by (subst py_find.simps) simp
  next
    case fits: False
    then have range: "[i ..< Suc (length w) - length what] = i # [Suc i ..< Suc (length w) - length what]"
      by (intro upt_conv_Cons) simp
    show ?thesis
    proof (cases "slice_of w i (i + length what) = what")
      case True
      then have "occurs w what i" by (simp add: occurs_def)
      with fits True show ?thesis
        by (subst py_find.simps) (simp add: range)
    next
      case False
      then have "\<not> occurs w what i" by (simp add: occurs_def)
      with "1.IH" [OF fits False] fits False show ?thesis
        by (subst py_find.simps) (simp add: range)
    qed
  qed
qed

lemma filter_upt_Cons:
  assumes "filter P [s ..< b] = p # rest"
  shows "rest = filter P [Suc p ..< b]"
  using assms
proof (induction "b - s" arbitrary: s)
  case 0
  then show ?case by simp
next
  case (Suc n)
  then have lt: "s < b" by simp
  then have range: "[s ..< b] = s # [Suc s ..< b]" by (rule upt_conv_Cons)
  show ?case
  proof (cases "P s")
    case True
    with Suc.prems range show ?thesis by auto
  next
    case False
    with Suc.prems range have "filter P [Suc s ..< b] = p # rest" by simp
    moreover have "n = b - Suc s" using Suc.hyps(2) by simp
    ultimately show ?thesis by (rule Suc.hyps(1) [rotated])
  qed
qed

lemma find_all_from_filter:
  "find_all_from w what start = filter (occurs w what) [start ..< Suc (length w) - length what]"
proof (induction w what start rule: find_all_from.induct)
  case (1 w what start)
  show ?case
  proof (cases "filter (occurs w what) [start ..< Suc (length w) - length what]")
    case Nil
    then have "py_find w what start = None" by (simp add: py_find_filter)
    with Nil show ?thesis by (subst find_all_from.simps) simp
  next
    case (Cons p rest)
    then have found: "py_find w what start = Some p" by (simp add: py_find_filter)
    from Cons have "rest = filter (occurs w what) [Suc p ..< Suc (length w) - length what]"
      by (rule filter_upt_Cons)
    with "1.IH" [OF found] Cons found show ?thesis
      by (subst find_all_from.simps) simp
  qed
qed

lemma locate_loop_filter:
  "locate_loop buf cands =
     (case filter (survives buf) cands of [] \<Rightarrow> Inl NotFound | p # _ \<Rightarrow> Inr p)"
  by (induction cands) (auto simp: survives_def Let_def)

lemma occurs_needs_room:
  "occurs w SfxBlob_MAGIC p \<Longrightarrow> p + 4 \<le> length w"
proof -
  assume "occurs w SfxBlob_MAGIC p"
  then have "length (slice_of w p (p + length SfxBlob_MAGIC)) = length SfxBlob_MAGIC"
    unfolding occurs_def by simp
  then show ?thesis by (simp add: slice_of_def SfxBlob_MAGIC_def)
qed

lemma find_all_candidates:
  "find_all (slice_to buf (- int SfxBlob_HDR_SIZE)) SfxBlob_MAGIC = candidates buf"
proof -
  define w where "w = take (length buf - SfxBlob_HDR_SIZE) buf"
  have "nat (int (length buf) + - int SfxBlob_HDR_SIZE) = length buf - SfxBlob_HDR_SIZE"
    by linarith
  then have w: "slice_to buf (- int SfxBlob_HDR_SIZE) = w"
    by (simp add: slice_to_def w_def SfxBlob_HDR_SIZE_def)
  have four: "length SfxBlob_MAGIC = 4"
    by (simp add: SfxBlob_MAGIC_def)
  have P: "marker_at w = occurs w SfxBlob_MAGIC"
    by (rule ext) (simp only: marker_at_def occurs_def four)
  have "Suc (length w) - length SfxBlob_MAGIC \<le> length w"
    by (simp add: four)
  then have split: "[0 ..< length w] = [0 ..< Suc (length w) - length SfxBlob_MAGIC]
      @ [Suc (length w) - length SfxBlob_MAGIC ..< length w]"
    using upt_add_eq_append [of 0 "Suc (length w) - length SfxBlob_MAGIC"
        "length w - (Suc (length w) - length SfxBlob_MAGIC)"]
    by simp
  have none: "filter (occurs w SfxBlob_MAGIC) [Suc (length w) - length SfxBlob_MAGIC ..< length w] = []"
    unfolding filter_empty_conv
  proof
    fix x
    assume "x \<in> set [Suc (length w) - length SfxBlob_MAGIC ..< length w]"
    then have "length w < x + 4"
      by (auto simp: four)
    with occurs_needs_room [of w x] show "\<not> occurs w SfxBlob_MAGIC x"
      by auto
  qed
  have "filter (occurs w SfxBlob_MAGIC) [0 ..< length w]
      = filter (occurs w SfxBlob_MAGIC) [0 ..< Suc (length w) - length SfxBlob_MAGIC]"
    by (subst split) (simp add: none)
  then show ?thesis
    by (simp add: find_all_def find_all_from_filter w candidates_def Let_def w_def [symmetric] P)
qed

text \<open>The float comparison of the code and the 80 percent of the spec agree.\<close>

lemma survives_code: 
  "survives buf p \<longleftrightarrow> p mod 0x80 = 0
     \<and> \<not> 10 * count_list (slice_of buf p (p + SfxBlob_HDR_SIZE)) 0 \<le> 8 * SfxBlob_HDR_SIZE"
  by (auto simp: survives_def)

text \<open>
  Claim C8 (SFX heuristic locator selection rule). For every input buffer the search of
  \<open>extract_load_input\<close> returns what the rule says: of the occurrences of the marker
  \<open>00 08 00 00\<close> in the buffer without its final \<open>HDR_SIZE\<close> bytes, taken in ascending
  order, the first that is aligned to \<open>0x80\<close> and whose window of \<open>HDR_SIZE\<close> bytes is
  more than 80 percent zero; an occurrence that fails a check is passed over and the
  search goes on; \<open>NotFound\<close> when none survives.
\<close>

theorem C8_sfx_locator_selection_rule:
  "sfx_locate input_binary = first_survivor input_binary"
  by (simp add: sfx_locate_def first_survivor_def find_all_candidates locate_loop_filter)

text \<open>
  What is known of an offset the search returns: it is aligned, the marker is there, and
  the marker and a whole header after it fit in the buffer.
\<close>

lemma sfx_locate_result:
  assumes "sfx_locate buf = Inr p"
  shows "p mod 0x80 = 0 \<and> p + 4 + SfxBlob_HDR_SIZE \<le> length buf
         \<and> slice_of buf p (p + 4) = SfxBlob_MAGIC"
proof -
  define body where "body = take (length buf - SfxBlob_HDR_SIZE) buf"
  from assms obtain rest where "filter (survives buf) (candidates buf) = p # rest"
    by (auto simp: sfx_locate_def find_all_candidates locate_loop_filter split: list.splits)
  then have "p \<in> set (filter (survives buf) (candidates buf))"
    by simp
  then have s: "survives buf p" and m: "marker_at body p"
    by (simp_all add: candidates_def Let_def body_def)
  from m have "length (slice_of body p (p + 4)) = length SfxBlob_MAGIC"
    unfolding marker_at_def by simp
  then have "p + 4 \<le> length body"
    by (simp add: slice_of_def SfxBlob_MAGIC_def)
  moreover have "length body = length buf - SfxBlob_HDR_SIZE"
    by (simp add: body_def)
  ultimately have room: "p + 4 \<le> length buf - SfxBlob_HDR_SIZE"
    by simp
  then have fits: "p + 4 + SfxBlob_HDR_SIZE \<le> length buf"
    by simp
  have "slice_of body p (p + 4) = take 4 (take (length buf - SfxBlob_HDR_SIZE - p) (drop p buf))"
    by (simp add: slice_of_def body_def drop_take)
  also have "\<dots> = take 4 (drop p buf)"
    using room by (simp add: min_def)
  finally have "slice_of buf p (p + 4) = slice_of body p (p + 4)"
    by (simp add: slice_of_def)
  with s m fits show ?thesis
    by (simp add: survives_def marker_at_def)
qed

section \<open>Properties of the SfxBlob decoder\<close>

subsection \<open>Decoding a header with one descriptor\<close>

lemma le_nat_zeros: "le_nat (replicate n 0) = 0"
  by (induction n) simp_all

lemma read_header_one:
  "read_header (o0 # o1 # o2 # o3 # s0 # s1 # r0 # r1 # replicate 2040 0 @ payload) 0
     = (if le_nat [o0, o1, o2, o3] = 0 \<and> le_nat [s0, s1] = 0 \<and> le_nat [r0, r1] = 0 then []
        else [\<lparr>e_format = (if le_nat [r0, r1] \<noteq> 0 then WAV else MP3),
               e_offset = le_nat [o0, o1, o2, o3], e_size = le_nat [s0, s1],
               e_samplerate = le_nat [r0, r1], contents = [], trailer = [],
               tr_samplerate = 0, tr_resolution = 0\<rparr>])"
proof -
  let ?data = "o0 # o1 # o2 # o3 # s0 # s1 # r0 # r1 # replicate 2040 0 @ payload"
  have "slice_of ?data 8 (8 + AbstractSfxEntry_SIZE) = replicate 8 0"
    by (simp add: slice_of_def AbstractSfxEntry_SIZE_def)
  then have second: "read_header ?data 8 = []"
    by (subst read_header.simps)
       (simp add: SfxBlob_HDR_SIZE_def Let_def slice_of_def le_nat_zeros del: le_nat.simps)
  have first: "slice_of ?data 0 (0 + AbstractSfxEntry_SIZE) = [o0, o1, o2, o3, s0, s1, r0, r1]"
    by (simp add: slice_of_def AbstractSfxEntry_SIZE_def)
  have next_off: "0 + AbstractSfxEntry_SIZE = 8"
    by (simp add: AbstractSfxEntry_SIZE_def)
  show ?thesis
    by (subst read_header.simps)
       (simp only: first next_off second Let_def, simp add: SfxBlob_HDR_SIZE_def slice_of_def
          del: le_nat.simps)
qed

text \<open>
  Claim C2 (the bounds check of SfxBlob decode covers the entry's position), at a blob of
  exactly \<open>0x800\<close> bytes whose only descriptor is an MP3 entry of one chunk at offset
  \<open>0x800\<close>. The buffer is shorter than \<open>offset + span = 0x900\<close>, so the claim has decode
  fail with \<open>Truncated\<close>. \<open>load\<close> compares the length with the span \<open>0x100\<close> alone,
  accepts the entry, and imports the empty slice \<open>data[0x800:0x900]\<close> as its payload.
\<close>

theorem C2_load_ignores_offset:
  "SfxBlob_load ([0x00, 0x08, 0x00, 0x00, 0x01, 0x00, 0x00, 0x00] @ replicate 2040 0)
     = Inr ([\<lparr>e_format = MP3, e_offset = 0x800, e_size = 1, e_samplerate = 0, contents = [],
              trailer = [], tr_samplerate = 0, tr_resolution = 0\<rparr>], [])"
proof -
  have hdr: "read_header ([0x00, 0x08, 0x00, 0x00, 0x01, 0x00, 0x00, 0x00] @ replicate 2040 0) 0
      = [\<lparr>e_format = MP3, e_offset = 0x800, e_size = 1, e_samplerate = 0, contents = [],
              trailer = [], tr_samplerate = 0, tr_resolution = 0\<rparr>]"
    using read_header_one [of 0 8 0 0 1 0 0 0 "[]"]
    by simp
  show ?thesis
    unfolding SfxBlob_load_def hdr
    by (simp add: SfxBlob_HDR_SIZE_def total_size_in_bytes_def CHUNK_SIZE_def
        import_from_blob_def slice_of_def)
qed

section \<open>Injection and the length of the file\<close>

lemma count_list_replicate: "count_list (replicate n x) y = (if x = y then n else 0)"
  by (induction n) auto

text \<open>A marker at offset 0 that survives both checks is the first survivor.\<close>

lemma sfx_locate_at_zero:
  assumes "marker_at (take (length buf - SfxBlob_HDR_SIZE) buf) 0" and "survives buf 0"
  shows "sfx_locate buf = Inr 0"
proof -
  from assms(1) have "length (slice_of (take (length buf - SfxBlob_HDR_SIZE) buf) 0 (0 + 4))
      = length SfxBlob_MAGIC"
    unfolding marker_at_def by simp
  then have "0 < length (take (length buf - SfxBlob_HDR_SIZE) buf)"
    by (auto simp: slice_of_def SfxBlob_MAGIC_def)
  then have "[0 ..< length (take (length buf - SfxBlob_HDR_SIZE) buf)]
      = 0 # [Suc 0 ..< length (take (length buf - SfxBlob_HDR_SIZE) buf)]"
    by (rule upt_conv_Cons)
  with assms show ?thesis
    by (simp add: sfx_locate_def find_all_candidates locate_loop_filter candidates_def Let_def)
qed

text \<open>
  Both tools keep the file's length when the replaced region \<open>[start, start + old_size)\<close>
  lies inside the file, whatever the size of the new sector.
\<close>

lemma inject_preserves_length:
  assumes "start + old_size \<le> length input_binary"
  shows "save_output_mod input_binary start old_size blob force = Inr (out, log)
           \<Longrightarrow> length out = length input_binary"
    and "repack_inject input_binary start old_size blob force = Inr (out, log)
           \<Longrightarrow> length out = length input_binary"
proof -
  have inside: "start \<le> length input_binary"
    using assms by simp
  have len: "length (splice_bytes input_binary start b) = max (length input_binary) (start + length b)"
    for b
    using inside by (rule length_splice)
  show "save_output_mod input_binary start old_size blob force = Inr (out, log)
           \<Longrightarrow> length out = length input_binary"
    using assms
    by (auto simp: save_output_mod_def Let_def len slice_to_def bytes_times_def
        split: if_splits)
  show "repack_inject input_binary start old_size blob force = Inr (out, log)
           \<Longrightarrow> length out = length input_binary"
  proof (cases "length blob < old_size")
    case True
    assume r: "repack_inject input_binary start old_size blob force = Inr (out, log)"
    show ?thesis
    proof (cases "blob = []")
      case True
      with \<open>length blob < old_size\<close> r inside show ?thesis
        by (auto simp: repack_inject_def align_bytes_def Let_def len ljust_def split: if_splits)
    next
      case False
      with True r assms show ?thesis
        by (auto simp: repack_inject_smaller)
    qed
  next
    case False
    assume "repack_inject input_binary start old_size blob force = Inr (out, log)"
    with False assms show ?thesis
      by (auto simp: repack_inject_def Let_def len slice_to_def split: if_splits)
  qed
qed

text \<open>
  Claim C9 (every injection path preserves the total length), on the SFX path at a
  firmware of 4096 bytes whose descriptor table, at offset 0, declares one MP3 entry of
  \<open>0x10\<close> chunks at \<open>0x800\<close>: the file ends \<open>0x800\<close> bytes before the declared entry does.
  \<open>load\<close> accepts it (the span \<open>0x1000\<close> is not more than the length), so \<open>sb_size\<close> is
  \<open>0x1800\<close>. Injecting the blob built from one MP3 file of 256 bytes (2304 bytes) pads it
  to \<open>sb_size\<close>, and the file written has 6144 bytes, not 4096.
\<close>

theorem C9_sfx_injection_grows_file:
  "length (0 # 8 # 0 # 0 # 0x10 # 0 # 0 # 0 # replicate 2040 0 @ replicate 2048 (0 :: byte)) = 4096
   \<and> repack_inject_output
        (0 # 8 # 0 # 0 # 1 # 0 # 0 # 0 # replicate 2040 0 @ replicate 256 0x4D)
        (0 # 8 # 0 # 0 # 0x10 # 0 # 0 # 0 # replicate 2040 0 @ replicate 2048 0) False
     = Inr ((0 # 8 # 0 # 0 # 1 # 0 # 0 # 0 # replicate 2040 0 @ replicate 256 0x4D)
              @ replicate 3840 0xFF, [PaddingInfo 3840])
   \<and> length ((0 # 8 # 0 # 0 # 1 # 0 # 0 # 0 # replicate 2040 0 @ replicate 256 (0x4D :: byte))
              @ replicate 3840 0xFF) = 6144"
proof -
  let ?input = "0 # 8 # 0 # 0 # 0x10 # 0 # 0 # 0 # replicate 2040 0 @ replicate 2048 (0 :: byte)"
  let ?blob = "0 # 8 # 0 # 0 # 1 # 0 # 0 # 0 # replicate 2040 0 @ replicate 256 (0x4D :: byte)"
  have marker: "marker_at (take (length ?input - SfxBlob_HDR_SIZE) ?input) 0"
    by (simp add: marker_at_def SfxBlob_HDR_SIZE_def SfxBlob_MAGIC_def slice_of_def)
  have zeroes: "survives ?input 0"
    by (simp add: survives_def SfxBlob_HDR_SIZE_def slice_of_def count_list_replicate)
  have start: "sfx_locate ?input = Inr 0"
    using marker zeroes by (rule sfx_locate_at_zero)
  have hdr: "read_header ?input 0
      = [\<lparr>e_format = MP3, e_offset = 0x800, e_size = 0x10, e_samplerate = 0, contents = [],
              trailer = [], tr_samplerate = 0, tr_resolution = 0\<rparr>]"
    using read_header_one [of 0 8 0 0 "0x10" 0 0 0 "replicate 2048 0"]
    by simp
  have load: "SfxBlob_load ?input
      = Inr ([\<lparr>e_format = MP3, e_offset = 0x800, e_size = 0x10, e_samplerate = 0,
               contents = replicate 2048 0, trailer = [], tr_samplerate = 0,
               tr_resolution = 0\<rparr>], [])"
    unfolding SfxBlob_load_def hdr
    by (simp add: SfxBlob_HDR_SIZE_def total_size_in_bytes_def CHUNK_SIZE_def
        import_from_blob_def slice_of_def)
  have found: "extract_load_input ?input = Inr (0, 6144)"
    by (simp add: extract_load_input_def start slice_from_def load SfxBlob_total_size_def
        SfxBlob_HDR_SIZE_def total_size_in_bytes_def CHUNK_SIZE_def)
  have "repack_inject ?input 0 6144 ?blob False
      = Inr (take 0 ?input @ ?blob @ replicate (6144 - length ?blob) 0xFF @ drop (0 + 6144) ?input,
             [PaddingInfo (int 6144 - int (length ?blob))])"
    by (rule repack_inject_smaller) simp_all
  then have "repack_inject ?input 0 6144 ?blob False
      = Inr (?blob @ replicate 3840 0xFF, [PaddingInfo 3840])"
    by simp
  then show ?thesis
    by (simp add: repack_inject_output_def found)
qed

lemma BtPairing_load_length:
  assumes "BtPairing_load data = Inr bp"
  shows "BtPairing_length bp \<le> length data"
proof -
  obtain n where n: "\<forall>k<n. accepted_at data k" "\<not> accepted_at data n"
    using accepted_prefix_exists by blast
  have run: "read_entries data BtPairing_HDR_SIZE [] =
     (case load_first data BtPairing_HDR_SIZE n of
        Inl e \<Rightarrow> Inl e
      | Inr es \<Rightarrow> Inr ([] @ es, BtPairing_HDR_SIZE + n * Entry_SIZE))"
    using n by (intro read_entries_run) (auto simp: accepted_at_def)
  from assms obtain es off where r: "read_entries data BtPairing_HDR_SIZE [] = Inr (es, off)"
      and bp: "entries bp = es" and more: "\<not> length data - off < 1"
    by (auto simp: BtPairing_load_def split: if_splits sum.splits)
  from run r have "length es = n" "off = BtPairing_HDR_SIZE + n * Entry_SIZE"
    by (auto split: sum.splits dest: length_load_first)
  with bp more show ?thesis
    by (simp add: BtPairing_length_def BtPairing_HDR_SIZE_def)
qed

lemma btpairing_inject_preserves_length:
  assumes "btpairing_inject blob input_binary force = Inr (out, log)"
  shows "length out = length input_binary"
proof -
  from assms obtain start bp where f: "py_find input_binary BtPairing_MAGIC 0 = Some start"
      and l: "BtPairing_load (slice_from input_binary (int start)) = Inr bp"
      and s: "save_output_mod input_binary start (BtPairing_length bp) blob force = Inr (out, log)"
    by (auto simp: btpairing_inject_def split: option.splits sum.splits)
  from f have "start \<le> length input_binary"
    by (auto dest: py_find_Some)
  moreover from l have "BtPairing_length bp \<le> length (slice_from input_binary (int start))"
    by (rule BtPairing_load_length)
  ultimately have "start + BtPairing_length bp \<le> length input_binary"
    by (simp add: slice_from_def)
  then show ?thesis
    using s by (rule inject_preserves_length(1))
qed

end
